theory Spec2Isabelle
  imports Main "HOL-Library.Sublist"
begin

section \<open>Python strings\<close>

text \<open>
  A Python \<open>str\<close> is a sequence of code points. The model uses \<open>string\<close> and reads
  each \<open>char\<close> as one code point below 256 (Latin-1), so \<open>length\<close> counts what
  Python's \<open>len\<close> counts. The character classes below are the ones CPython's Unicode
  database gives for these 256 code points.
\<close>

definition ord :: "char \<Rightarrow> nat" where
  "ord c = of_char c"

definition chr :: "nat \<Rightarrow> char" where
  "chr n = char_of n"

text \<open>\<open>str.isspace\<close>, also the class \<open>\s\<close> of \<open>re\<close> and what \<open>str.strip()\<close> removes.\<close>

definition isspace :: "char \<Rightarrow> bool" where
  "isspace c = (let n = ord c in
     (9 \<le> n \<and> n \<le> 13) \<or> (28 \<le> n \<and> n \<le> 32) \<or> n = 133 \<or> n = 160)"

text \<open>The class \<open>\d\<close> of \<open>re\<close> on \<open>str\<close> patterns (decimal digits).\<close>

definition isdecimal :: "char \<Rightarrow> bool" where
  "isdecimal c = (48 \<le> ord c \<and> ord c \<le> 57)"

text \<open>The class \<open>\w\<close> of \<open>re\<close> on \<open>str\<close> patterns: alphanumeric or underscore.\<close>

definition isword :: "char \<Rightarrow> bool" where
  "isword c = (let n = ord c in
     (48 \<le> n \<and> n \<le> 57) \<or> (65 \<le> n \<and> n \<le> 90) \<or> n = 95 \<or> (97 \<le> n \<and> n \<le> 122)
     \<or> n = 170 \<or> n = 178 \<or> n = 179 \<or> n = 181 \<or> n = 185 \<or> n = 186
     \<or> (188 \<le> n \<and> n \<le> 190) \<or> (192 \<le> n \<and> n \<le> 214) \<or> (216 \<le> n \<and> n \<le> 246)
     \<or> (248 \<le> n \<and> n \<le> 255))"

definition lower_char :: "char \<Rightarrow> char" where
  "lower_char c = (let n = ord c in
     if (65 \<le> n \<and> n \<le> 90) \<or> (192 \<le> n \<and> n \<le> 222 \<and> n \<noteq> 215)
     then chr (n + 32) else c)"

text \<open>\<open>s.lower()\<close>\<close>

definition lower :: "string \<Rightarrow> string" where
  "lower s = map lower_char s"

text \<open>\<open>s.strip()\<close>\<close>

definition strip :: "string \<Rightarrow> string" where
  "strip s = rev (dropWhile isspace (rev (dropWhile isspace s)))"

text \<open>\<open>sub in s\<close>\<close>

fun contains :: "string \<Rightarrow> string \<Rightarrow> bool" where
  "contains sub [] = (sub = [])"
| "contains sub (c # cs) = (prefix sub (c # cs) \<or> contains sub cs)"

text \<open>\<open>s.startswith(p)\<close>\<close>

definition startswith :: "string \<Rightarrow> string \<Rightarrow> bool" where
  "startswith s p = prefix p s"

text \<open>
  \<open>s.replace(old, new)\<close>: the occurrences of \<open>old\<close> are replaced from left to right
  without overlap. With an empty \<open>old\<close> Python puts \<open>new\<close> before every character
  and at the end.
\<close>

function replace :: "string \<Rightarrow> string \<Rightarrow> string \<Rightarrow> string" where
  "replace old new [] = (if old = [] then new else [])"
| "replace old new (c # cs) =
     (if old = [] then new @ c # replace old new cs
      else if prefix old (c # cs) then new @ replace old new (drop (length old) (c # cs))
      else c # replace old new cs)"
  by pat_completeness auto
termination
  by (relation "measure (\<lambda>(old, new, s). length s)") auto

text \<open>
  \<open>s.split(sep, 1)\<close> for a non-empty \<open>sep\<close>: the text before and after the first
  occurrence of \<open>sep\<close>, or \<open>None\<close> when \<open>sep\<close> does not occur (Python then returns
  the one-element list \<open>[s]\<close>, and indexing it at 1 raises).
\<close>

fun split1 :: "string \<Rightarrow> string \<Rightarrow> (string \<times> string) option" where
  "split1 sep [] = (if sep = [] then Some ([], []) else None)"
| "split1 sep (c # cs) =
     (if prefix sep (c # cs) then Some ([], drop (length sep) (c # cs))
      else (case split1 sep cs of None \<Rightarrow> None | Some (a, b) \<Rightarrow> Some (c # a, b)))"

text \<open>\<open>sep.join(xs)\<close>\<close>

fun join :: "string \<Rightarrow> string list \<Rightarrow> string" where
  "join sep [] = []"
| "join sep [x] = x"
| "join sep (x # y # ys) = x @ sep @ join sep (y # ys)"

text \<open>\<open>s.ljust(w)\<close>\<close>

definition ljust :: "string \<Rightarrow> nat \<Rightarrow> string" where
  "ljust s w = s @ replicate (w - length s) (CHR '' '')"

text \<open>\<open>str(n)\<close> for a natural number and for an integer.\<close>

fun str_nat :: "nat \<Rightarrow> string" where
  "str_nat n = (if n < 10 then [chr (48 + n)] else str_nat (n div 10) @ [chr (48 + n mod 10)])"

declare str_nat.simps [simp del]

definition str_int :: "int \<Rightarrow> string" where
  "str_int i = (if i < 0 then CHR ''-'' # str_nat (nat (- i)) else str_nat (nat i))"

section \<open>Integer conversion\<close>

definition digit_val :: "char \<Rightarrow> nat" where
  "digit_val c = ord c - 48"

text \<open>The value of a string of decimal digits, most significant digit first.\<close>

definition dec_val :: "string \<Rightarrow> nat" where
  "dec_val ds = foldl (\<lambda>a c. 10 * a + digit_val c) 0 ds"

text \<open>
  The digits of an integer literal after its sign: groups of decimal digits, separated
  by single underscores.
\<close>

definition literal_digits :: "string \<Rightarrow> string option" where
  "literal_digits b =
     (if b \<noteq> [] \<and> isdecimal (hd b) \<and> isdecimal (last b)
         \<and> list_all (\<lambda>c. isdecimal c \<or> c = CHR ''_'') b \<and> \<not> contains ''__'' b
      then Some (filter isdecimal b) else None)"

text \<open>
  The white space that \<open>int\<close> skips at both ends of its argument: that of
  \<open>str.isspace\<close> without the four separators U+001C to U+001F, which \<open>int\<close> rejects.
\<close>

definition int_space :: "char \<Rightarrow> bool" where
  "int_space c = (isspace c \<and> \<not> (28 \<le> ord c \<and> ord c \<le> 31))"

text \<open>
  \<open>int(s)\<close> on a \<open>str\<close>. \<open>None\<close> stands for \<open>ValueError\<close>, which Python raises for a
  string that is not an integer literal and, when the interpreter's limit on integer
  string conversion is on, for a literal with more digits than the limit. The limit is
  the first argument (\<open>sys.get_int_max_str_digits()\<close>: 4300 unless configured, 0 turns
  the check off).
\<close>

definition py_int :: "nat \<Rightarrow> string \<Rightarrow> int option" where
  "py_int lim s =
     (let t = rev (dropWhile int_space (rev (dropWhile int_space s)));
          neg = (t \<noteq> [] \<and> hd t = CHR ''-'');
          b = (if t \<noteq> [] \<and> (hd t = CHR ''-'' \<or> hd t = CHR ''+'') then tl t else t)
      in case literal_digits b of
           None \<Rightarrow> None
         | Some ds \<Rightarrow>
             if lim \<noteq> 0 \<and> lim < length ds then None
             else Some (if neg then - int (dec_val ds) else int (dec_val ds)))"

section \<open>Spoken number parsing\<close>

definition WORD_NUMS :: "(string \<times> int) list" where
  "WORD_NUMS =
     [(''zero'', 0), (''oh'', 0), (''none'', 0), (''no'', 0),
      (''one'', 1), (''first'', 1),
      (''two'', 2), (''second'', 2), (''to'', 2), (''too'', 2),
      (''three'', 3), (''third'', 3),
      (''four'', 4), (''for'', 4), (''fourth'', 4),
      (''five'', 5), (''fifth'', 5),
      (''six'', 6), (''sixth'', 6),
      (''seven'', 7), (''seventh'', 7),
      (''eight'', 8), (''ate'', 8), (''eighth'', 8),
      (''nine'', 9), (''ninth'', 9),
      (''ten'', 10), (''tenth'', 10)]"

text \<open>\<open>re.search(r'\d+', s)\<close>: the group 0 of the match, the left-most maximal run of digits.\<close>

definition search_digits :: "string \<Rightarrow> string option" where
  "search_digits s =
     (let r = dropWhile (\<lambda>c. \<not> isdecimal c) s
      in if r = [] then None else Some (takeWhile isdecimal r))"

text \<open>
  \<open>re.split(r'\W+', s)\<close>: the pieces of \<open>s\<close> between the maximal runs of non-word
  characters; a run at either end of \<open>s\<close> leaves an empty piece there.
\<close>

function re_split_W :: "string \<Rightarrow> string list" where
  "re_split_W s =
     (let r = dropWhile isword s
      in if r = [] then [takeWhile isword s]
         else takeWhile isword s # re_split_W (dropWhile (\<lambda>c. \<not> isword c) r))"
  by pat_completeness auto
termination
proof (relation "measure length")
  fix s r
  assume r: "r = dropWhile isword s" and ne: "r \<noteq> []"
  from ne obtain x xs where xs: "r = x # xs" by (cases r) auto
  with r have "\<not> isword x" by (metis hd_dropWhile list.sel(1) ne)
  with xs have "length (dropWhile (\<lambda>c. \<not> isword c) r) \<le> length xs"
    by (simp add: length_dropWhile_le)
  moreover have "length r \<le> length s" using r by (simp add: length_dropWhile_le)
  ultimately show "(dropWhile (\<lambda>c. \<not> isword c) r, s) \<in> measure length"
    using xs by simp
qed simp

declare re_split_W.simps [simp del]

text \<open>The loop \<open>for t in ...: if t in WORD_NUMS: return WORD_NUMS[t]\<close>, then \<open>return -1\<close>.\<close>

fun scan_tokens :: "string list \<Rightarrow> int" where
  "scan_tokens [] = - 1"
| "scan_tokens (t # ts) =
     (case map_of WORD_NUMS t of Some v \<Rightarrow> v | None \<Rightarrow> scan_tokens ts)"

definition parse_spoken_number :: "nat \<Rightarrow> string \<Rightarrow> int" where
  "parse_spoken_number lim s0 =
     (let s = lower (strip s0)
      in if s = [] then - 1
         else case (case search_digits s of None \<Rightarrow> None | Some g \<Rightarrow> py_int lim g) of
                Some n \<Rightarrow> n
              | None \<Rightarrow> scan_tokens (re_split_W s))"

section \<open>Regular expressions of the router\<close>

definition NL :: char where
  "NL = CHR 0x0A"

definition isword_opt :: "char option \<Rightarrow> bool" where
  "isword_opt x = (case x of None \<Rightarrow> False | Some c \<Rightarrow> isword c)"

text \<open>
  \<open>\b\<close> between two neighbouring positions: exactly one side is a word character; the
  outside of the string counts as a non-word character.
\<close>

definition boundary :: "char option \<Rightarrow> char option \<Rightarrow> bool" where
  "boundary a b = (isword_opt a \<noteq> isword_opt b)"

definition nth_opt :: "string \<Rightarrow> nat \<Rightarrow> char option" where
  "nth_opt s n = (if n < length s then Some (s ! n) else None)"

text \<open>
  \<open>re.search(r'\bp\b', s)\<close> for a non-empty literal \<open>p\<close>, as a truth value; the second
  argument is the character before the rest of the string that is still to be searched.
\<close>

fun search_b :: "string \<Rightarrow> char option \<Rightarrow> string \<Rightarrow> bool" where
  "search_b p prev [] = False"
| "search_b p prev (c # cs) =
     ((prefix p (c # cs) \<and> boundary prev (Some c)
         \<and> boundary (Some (last p)) (nth_opt (c # cs) (length p)))
      \<or> search_b p (Some c) cs)"

text \<open>
  \<open>re.search(r'weather (?:in|of)\s+(.+)', q)\<close>, the group 1 of the left-most match.
  At a given start, \<open>\s+\<close> first takes all the white space that follows and gives it back
  one character at a time until \<open>.+\<close>, which stops before a newline, finds a character.
\<close>

definition match_city :: "string \<Rightarrow> string option" where
  "match_city s =
     (if prefix ''weather in'' s \<or> prefix ''weather of'' s then
        (let r = drop 10 s;
             k = length (takeWhile isspace r)
         in case find (\<lambda>j. j < length r \<and> r ! j \<noteq> NL) (rev [1..<Suc k]) of
              None \<Rightarrow> None
            | Some j \<Rightarrow> Some (takeWhile (\<lambda>c. c \<noteq> NL) (drop j r)))
      else None)"

fun search_city :: "string \<Rightarrow> string option" where
  "search_city [] = None"
| "search_city (c # cs) =
     (case match_city (c # cs) of Some g \<Rightarrow> Some g | None \<Rightarrow> search_city cs)"

text \<open>
  \<open>re.search(r'(?:set\s*)?volume\s*(\d{1,3})', q)\<close>, the group 1 of the left-most match:
  one to three digits.
\<close>

definition match_volume :: "string \<Rightarrow> string option" where
  "match_volume s =
     (if prefix ''volume'' s then
        (let d = take 3 (takeWhile isdecimal (dropWhile isspace (drop 6 s)))
         in if d = [] then None else Some d)
      else None)"

definition match_set_volume :: "string \<Rightarrow> string option" where
  "match_set_volume s =
     (if prefix ''set'' s then match_volume (dropWhile isspace (drop 3 s))
      else match_volume s)"

fun search_volume :: "string \<Rightarrow> string option" where
  "search_volume [] = None"
| "search_volume (c # cs) =
     (case match_set_volume (c # cs) of Some d \<Rightarrow> Some d | None \<Rightarrow> search_volume cs)"

section \<open>External collaborators\<close>

text \<open>
  What the program does to the outside world, in the order in which it does it: console
  output, notifications, speech, and the calls of the effector functions.
  \<open>VolumeControl a\<close> is the call \<open>control_volume(a)\<close> itself, whatever the endpoint
  does with it; \<open>VolumeSet p\<close> is the call of \<open>SetMasterVolumeLevelScalar\<close> with
  \<open>p/100\<close>, which takes an endpoint.
\<close>

datatype event =
    Print string
  | Toast string
  | DeepgramSpeak string
  | LocalSpeak string
  | WebOpen string
  | PlayOnYt string
  | WikipediaSummary string
  | WeatherRequest string
  | VolumeControl string
  | VolumeSet int
  | BrightnessSet int
  | ScreenGrab
  | ThreadStart string
  | SearchFiles string
  | OpenFile string
  | Listen nat nat
  | Input string
  | GeminiSend string
  | JokeRequest
  | ConnectionCheck
  | CpuPercent
  | MemoryPercent

text \<open>
  What the outside world answers during one turn. An \<open>option\<close> is \<open>None\<close> where the
  call raises and the source catches the exception, except for \<open>deepgram_error\<close>,
  \<open>volume_error\<close> and \<open>open_error\<close>, which hold the message of the exception when
  there is one. \<open>gemini_reply\<close> is \<open>Inl\<close> of the message of the exception when the chat
  call raises, and \<open>Inr\<close> of \<open>response.text\<close> otherwise, with \<open>[]\<close> for both
  \<open>None\<close> and the empty string (the source tests it with \<open>or\<close>).
\<close>

record env =
  int_max_str_digits :: nat
  now_time :: string
  now_date :: string
  deepgram_configured :: bool
  deepgram_error :: "string \<Rightarrow> string option"
  wikipedia_summary :: "string \<Rightarrow> string option"
  playonyt :: "string \<Rightarrow> bool"
  get_joke :: "string option"
  weather_lookup :: "string \<Rightarrow> string"
  endpoint_volume :: bool
  volume_error :: "string option"
  sbc_present :: bool
  get_brightness :: "int option"
  screenshot_path :: "string option"
  connected :: bool
  cpu_percent :: string
  memory_percent :: string
  walk :: "(string \<times> string list) list"
  path_join :: "string \<Rightarrow> string \<Rightarrow> string"
  open_error :: "string \<Rightarrow> string option"
  heard_selection :: "string option"
  typed_selection :: "string option"
  gemini_client :: bool
  gemini_reply :: "string \<Rightarrow> string + string"

section \<open>Unified output\<close>

definition max_len :: "string list \<Rightarrow> nat" where
  "max_len xs = foldr (\<lambda>x m. max (length x) m) xs 0"

definition ascii_table :: "env \<Rightarrow> string \<Rightarrow> string" where
  "ascii_table e answer =
     (let oneline0 = replace [NL] '' '' (strip answer);
          oneline = (if 220 < length oneline0 then take 217 oneline0 @ ''...'' else oneline0);
          rows = [(''Time'', now_time e), (''Date'', now_date e), (''Answer'', oneline)];
          key_w = max_len (map fst rows);
          val_w = max_len (map snd rows);
          top = ''+-'' @ replicate key_w (CHR ''-'') @ ''-+-'' @ replicate val_w (CHR ''-'') @ ''-+'';
          body = [top] @ map (\<lambda>(k, v). ''| '' @ ljust k key_w @ '' | '' @ ljust v val_w @ '' |'') rows
                 @ [top]
      in join [NL] body)"

definition speak_and_print :: "env \<Rightarrow> string \<Rightarrow> event list" where
  "speak_and_print e text =
     (if text = [] then []
      else [Print ([NL] @ ascii_table e text @ [NL]), Toast text] @
           (if deepgram_configured e then
              (case deepgram_error e text of
                 None \<Rightarrow> [DeepgramSpeak text]
               | Some err \<Rightarrow> [Print (''[Deepgram TTS fallback] '' @ err), LocalSpeak text])
            else [LocalSpeak text]))"

section \<open>Effectors\<close>

definition fetch_weather_from_google :: "env \<Rightarrow> string \<Rightarrow> event list \<times> string" where
  "fetch_weather_from_google e city =
     (if strip city = [] then ([], ''Please specify a city.'')
      else ([WeatherRequest city], weather_lookup e city))"

definition control_volume :: "env \<Rightarrow> string \<Rightarrow> event list \<times> string" where
  "control_volume e action =
     ([VolumeControl action],
      if \<not> endpoint_volume e then ''Volume control not supported.''
      else case volume_error e of
             None \<Rightarrow> ''Volume '' @ action @ ''.''
           | Some err \<Rightarrow> ''Volume error: '' @ err)"

definition set_volume_absolute :: "env \<Rightarrow> int \<Rightarrow> event list \<times> string" where
  "set_volume_absolute e percent =
     (if \<not> endpoint_volume e then ([], ''Volume control not supported.'')
      else let p = max 0 (min 100 percent)
           in ([VolumeSet p],
               case volume_error e of
                 None \<Rightarrow> ''Volume set to '' @ str_int p @ ''%.''
               | Some err \<Rightarrow> ''Volume error: '' @ err))"

definition fetch_gemini_response :: "env \<Rightarrow> string \<Rightarrow> event list \<times> string" where
  "fetch_gemini_response e prompt =
     (if \<not> gemini_client e
      then ([], ''Gemini not configured. Please ensure your API key is set in GEMINI_API_KEY.'')
      else ([GeminiSend prompt],
            case gemini_reply e prompt of
              Inl err \<Rightarrow> ''Gemini AI error or no response: '' @ err
            | Inr text \<Rightarrow> strip (if text = [] then ''(no response)'' else text)))"

text \<open>
  \<open>search_files(keyword)\<close> with its default arguments: the walk over the home directory,
  flattened to the pairs of a directory and a file name in the order of the two loops;
  after each file the loop returns once it has \<open>max_results\<close> matches.
\<close>

fun search_loop ::
  "(string \<Rightarrow> string \<Rightarrow> string) \<Rightarrow> string \<Rightarrow> nat \<Rightarrow> (string \<times> string) list \<Rightarrow> string list
   \<Rightarrow> string list" where
  "search_loop pj key_lower max_results [] matches = matches"
| "search_loop pj key_lower max_results ((root, fname) # rest) matches =
     (let matches' = (if contains key_lower (lower fname) then matches @ [pj root fname]
                      else matches)
      in if max_results \<le> length matches' then matches'
         else search_loop pj key_lower max_results rest matches')"

definition search_files :: "env \<Rightarrow> string \<Rightarrow> string list" where
  "search_files e keyword =
     search_loop (path_join e) (lower keyword) 20
       (concat (map (\<lambda>(root, files). map (Pair root) files) (walk e))) []"

definition open_file :: "env \<Rightarrow> string \<Rightarrow> event list \<times> string" where
  "open_file e file_path =
     ([OpenFile file_path],
      case open_error e file_path of
        None \<Rightarrow> ''Opening: '' @ file_path
      | Some err \<Rightarrow> ''Failed to open '' @ file_path @ '': '' @ err)"

section \<open>Selection by voice or typed input\<close>

definition selection_prompt :: string where
  "selection_prompt =
     ''I found multiple files. Please tell me the number of the file you'' @ [CHR 0x27]
     @ ''d like to open.''"

definition get_user_selection_via_voice_or_input :: "env \<Rightarrow> int \<Rightarrow> event list \<times> int" where
  "get_user_selection_via_voice_or_input e max_index =
     (let evs0 = speak_and_print e selection_prompt @ [Listen 8 5];
          voice = (case heard_selection e of
                     None \<Rightarrow> None
                   | Some said \<Rightarrow>
                       (let sel = parse_spoken_number (int_max_str_digits e) said
                        in if 0 \<le> sel \<and> sel \<le> max_index then Some sel else None))
      in case voice of
           Some sel \<Rightarrow> (evs0, sel)
         | None \<Rightarrow>
             (let evs1 = evs0 @ [Print ''Enter the number of the file to open (0 to cancel):'',
                                Input ''Your choice: ''];
                  typed = (case typed_selection e of
                             None \<Rightarrow> None
                           | Some line \<Rightarrow> py_int (int_max_str_digits e) (strip line))
              in case typed of
                   None \<Rightarrow> (evs1, - 1)
                 | Some sel \<Rightarrow> if 0 \<le> sel \<and> sel \<le> max_index then (evs1, sel) else (evs1, - 1)))"

section \<open>Command routing\<close>

text \<open>
  One constructor for each \<open>return\<close> group of \<open>process_command\<close>, in the order of the
  source. The model returns it beside the response to say which branch answered.
\<close>

datatype rule =
    Greeting | HowAreYou | Farewell
  | Wikipedia
  | OpenYoutube | OpenGoogle | WebSearch | Play
  | Time | Date
  | Joke
  | Weather
  | VolumeUp | VolumeDown | Mute | Unmute | VolumeAbsolute
  | BrightnessUp | BrightnessDown
  | TakeScreenshot
  | Shutdown | Restart | Sleep
  | Internet
  | Cpu | Ram
  | FileSearch
  | Fallback

definition APOS :: char where
  "APOS = CHR 0x27"

definition greetings :: "string list" where
  "greetings =
     [''hello'', ''hi'', ''hey'', ''good morning'', ''good afternoon'', ''good evening'']"

definition smalltalk :: "string list" where
  "smalltalk =
     [''how are you'', ''how are you doing'', ''what'' @ [APOS] @ ''s up'', ''whats up'']"

definition farewells :: "string list" where
  "farewells = [''bye'', ''exit'', ''quit'', ''goodbye'', ''stop'']"

definition file_keywords :: "string list" where
  "file_keywords =
     [''find file'', ''search file'', ''fetch file'', ''open file'',
      ''find'', ''search'', ''fetch'', ''where'', ''locate'', ''show file'', ''get file'']"

text \<open>
  The search term of the file-search branch: every keyword is removed from the command, one
  keyword after the other in the order of the list, and the rest is stripped.
\<close>

definition search_terms_of :: "string \<Rightarrow> string" where
  "search_terms_of q = strip (foldl (\<lambda>words k. replace k [] words) q file_keywords)"

text \<open>The lines \<open>f"{idx}. {path}"\<close> of \<open>enumerate(matches, 1)\<close>.\<close>

definition numbered :: "string list \<Rightarrow> string list" where
  "numbered matches =
     map (\<lambda>(idx, path). str_nat idx @ ''. '' @ path) (zip [1..<Suc (length matches)] matches)"

text \<open>The body of the branch \<open>if any(k in q for k in file_keywords)\<close>.\<close>

definition file_search :: "env \<Rightarrow> string \<Rightarrow> event list \<times> string" where
  "file_search e q =
     (let search_terms = search_terms_of q
      in if search_terms = [] \<or> length search_terms < 2
         then ([], ''Please specify a file name, keyword, or part of it to search.'')
         else
           (let matches = search_files e search_terms
            in if matches = []
               then ([SearchFiles search_terms],
                     ''No files found matching '' @ [APOS] @ search_terms @ [APOS] @ ''.'')
               else if length matches = 1
               then (let (ev, open_result) = open_file e (matches ! 0)
                     in ([SearchFiles search_terms] @ ev, ''Found and '' @ open_result))
               else
                 (let lines = ''Files found:'' # numbered matches;
                      (ev_sel, sel) =
                        get_user_selection_via_voice_or_input e (int (length matches));
                      evs = [SearchFiles search_terms, Print ([NL] @ join [NL] lines @ [NL])]
                            @ ev_sel
                  in if sel = 0 then (evs, ''Cancelled. No file opened.'')
                     else if 1 \<le> sel \<and> sel \<le> int (length matches)
                     then (let chosen_file = matches ! nat (sel - 1);
                               (ev, open_result) = open_file e chosen_file
                           in (evs @ ev, ''Opened: '' @ chosen_file))
                     else (evs, ''Invalid choice. No file opened.''))))"

text \<open>The two brightness branches: \<open>step\<close> is \<open>+10\<close> or \<open>-10\<close>.\<close>

definition brightness :: "env \<Rightarrow> int \<Rightarrow> string \<Rightarrow> event list \<times> string" where
  "brightness e step done =
     (if sbc_present e then
        (case get_brightness e of
           None \<Rightarrow> ([], ''Brightness control failed.'')
         | Some current \<Rightarrow>
             ([BrightnessSet (max 0 (min 100 (if 0 < step then min (current + step) 100
                                               else max (current + step) 0)))],
              done))
      else ([], ''Brightness control failed.''))"

text \<open>
  In the branch of the absolute volume, \<open>int(m.group(1))\<close> converts one to three digits:
  it cannot raise, the limit on integer string conversion being 0 or at least 640.
\<close>

definition process_command :: "env \<Rightarrow> string \<Rightarrow> rule \<times> event list \<times> string" where
  "process_command e q0 =
     (let q = strip (lower q0)
      in if q \<in> set greetings then (Greeting, [], ''Hello! How can I assist you?'')
      else if q \<in> set smalltalk
        then (HowAreYou, [], ''I'' @ [APOS] @ ''m doing well, thank you! How can I help?'')
      else if q \<in> set farewells then (Farewell, [], ''Goodbye!'')
      else if contains ''wikipedia'' q then
        (let topic = strip (replace ''wikipedia'' [] (replace ''search wikipedia for'' [] q))
         in (Wikipedia, [WikipediaSummary topic],
             case wikipedia_summary e topic of
               Some summary \<Rightarrow> summary
             | None \<Rightarrow> ''Couldn'' @ [APOS] @ ''t find that on Wikipedia.''))
      else if contains ''open youtube'' q
        then (OpenYoutube, [WebOpen ''https://youtube.com''], ''Opening YouTube.'')
      else if contains ''open google'' q
        then (OpenGoogle, [WebOpen ''https://google.com''], ''Opening Google.'')
      else if startswith q ''search '' then
        (let term = strip (replace ''search'' [] q)
         in (WebSearch, [WebOpen (''https://www.google.com/search?q='' @ term)],
             ''Searching Google for '' @ term @ ''.''))
      else if startswith q ''play '' then
        (let song = strip (replace ''play'' [] q)
         in (Play, [PlayOnYt song],
             if playonyt e song then ''Playing '' @ song @ ''.''
             else ''Couldn'' @ [APOS] @ ''t play that right now.''))
      else if contains ''time'' q then (Time, [], ''The time is '' @ now_time e @ ''.'')
      else if contains ''date'' q
        then (Date, [], ''Today'' @ [APOS] @ ''s date is '' @ now_date e @ ''.'')
      else if contains ''joke'' q then
        (Joke, [JokeRequest],
         case get_joke e of
           Some joke \<Rightarrow> joke
         | None \<Rightarrow> ''I couldn'' @ [APOS] @ ''t fetch a joke right now.'')
      else if contains ''weather'' q then
        (let city = (case search_city q of Some g \<Rightarrow> g | None \<Rightarrow> [])
         in (Weather, fetch_weather_from_google e city))
      else if search_b ''volume up'' None q then (VolumeUp, control_volume e ''up'')
      else if search_b ''volume down'' None q then (VolumeDown, control_volume e ''down'')
      else if contains ''mute'' q \<and> \<not> contains ''unmute'' q
        then (Mute, control_volume e ''mute'')
      else if contains ''unmute'' q then (Unmute, control_volume e ''unmute'')
      else if search_volume q \<noteq> None
        then (VolumeAbsolute, set_volume_absolute e (int (dec_val (the (search_volume q)))))
      else if contains ''brightness up'' q
        then (BrightnessUp, brightness e 10 ''Brightness increased.'')
      else if contains ''brightness down'' q
        then (BrightnessDown, brightness e (- 10) ''Brightness decreased.'')
      else if contains ''screenshot'' q then
        (TakeScreenshot, [ScreenGrab],
         case screenshot_path e of
           Some path \<Rightarrow> ''Screenshot saved to '' @ path
         | None \<Rightarrow> ''Screenshot failed.'')
      else if contains ''shutdown'' q
        then (Shutdown, [ThreadStart ''system_shutdown''], ''Shutting down.'')
      else if contains ''restart'' q
        then (Restart, [ThreadStart ''system_restart''], ''Restarting.'')
      else if contains ''sleep'' q then (Sleep, [ThreadStart ''system_sleep''], ''Sleeping now.'')
      else if contains ''internet'' q
        then (Internet, [ConnectionCheck], if connected e then ''Connected.'' else ''Not connected.'')
      else if contains ''cpu'' q then (Cpu, [CpuPercent], ''CPU usage: '' @ cpu_percent e @ ''%'')
      else if contains ''ram'' q
        then (Ram, [MemoryPercent], ''RAM usage: '' @ memory_percent e @ ''%'')
      else if list_ex (\<lambda>k. contains k q) file_keywords then (FileSearch, file_search e q)
      else (Fallback, fetch_gemini_response e q))"

definition handle_query :: "env \<Rightarrow> string \<Rightarrow> event list" where
  "handle_query e query =
     (let (r, evs, response) = process_command e query
      in evs @ [Print (''User: '' @ query), Print (''Leo: '' @ response)]
         @ speak_and_print e response)"

section \<open>Wake word loop\<close>

definition WAKE_WORD :: string where
  "WAKE_WORD = ''leo''"

text \<open>
  What one capture of the loop gives: the transcription, \<open>sr.UnknownValueError\<close>, or
  another exception with its message.
\<close>

datatype capture = Heard string | UnknownValue | Failed string

text \<open>
  One iteration of the \<open>while True\<close> loop of \<open>listen_for_wake_word\<close>, from its capture
  and from the follow-up capture it makes when nothing follows the wake word.
\<close>

definition query_after_wake :: "string \<Rightarrow> string option" where
  "query_after_wake said =
     (case split1 WAKE_WORD said of None \<Rightarrow> None | Some (before, rest) \<Rightarrow> Some (strip rest))"

definition dispatch :: "env \<Rightarrow> string \<Rightarrow> event list" where
  "dispatch e query = (if query \<noteq> [] then handle_query e query else [])"

definition listen_iteration :: "env \<Rightarrow> capture \<Rightarrow> capture \<Rightarrow> event list" where
  "listen_iteration e first followup =
     (case first of
        UnknownValue \<Rightarrow> []
      | Failed msg \<Rightarrow> [Print (''Error listening: '' @ msg)]
      | Heard raw \<Rightarrow>
          (let said = strip (lower raw)
           in if said = [] then []
              else if contains WAKE_WORD said then
                (case query_after_wake said of
                   None \<Rightarrow> [Print ''Error listening: list index out of range'']
                 | Some query \<Rightarrow>
                     if query = [] then
                       speak_and_print e ''Yes?'' @ [Listen 6 8] @
                       (case followup of
                          UnknownValue \<Rightarrow> []
                        | Failed msg \<Rightarrow> [Print (''Error listening: '' @ msg)]
                        | Heard raw2 \<Rightarrow> dispatch e (strip (lower raw2)))
                     else dispatch e query)
              else []))"

section \<open>The rule table\<close>

text \<open>
  The conditions of \<open>process_command\<close>, one for each rule, on the normalised command, and
  the order in which the source tests them. The fallback has no condition.
\<close>

fun matches :: "rule \<Rightarrow> string \<Rightarrow> bool" where
  "matches Greeting q = (q \<in> set greetings)"
| "matches HowAreYou q = (q \<in> set smalltalk)"
| "matches Farewell q = (q \<in> set farewells)"
| "matches Wikipedia q = contains ''wikipedia'' q"
| "matches OpenYoutube q = contains ''open youtube'' q"
| "matches OpenGoogle q = contains ''open google'' q"
| "matches WebSearch q = startswith q ''search ''"
| "matches Play q = startswith q ''play ''"
| "matches Time q = contains ''time'' q"
| "matches Date q = contains ''date'' q"
| "matches Joke q = contains ''joke'' q"
| "matches Weather q = contains ''weather'' q"
| "matches VolumeUp q = search_b ''volume up'' None q"
| "matches VolumeDown q = search_b ''volume down'' None q"
| "matches Mute q = (contains ''mute'' q \<and> \<not> contains ''unmute'' q)"
| "matches Unmute q = contains ''unmute'' q"
| "matches VolumeAbsolute q = (search_volume q \<noteq> None)"
| "matches BrightnessUp q = contains ''brightness up'' q"
| "matches BrightnessDown q = contains ''brightness down'' q"
| "matches TakeScreenshot q = contains ''screenshot'' q"
| "matches Shutdown q = contains ''shutdown'' q"
| "matches Restart q = contains ''restart'' q"
| "matches Sleep q = contains ''sleep'' q"
| "matches Internet q = contains ''internet'' q"
| "matches Cpu q = contains ''cpu'' q"
| "matches Ram q = contains ''ram'' q"
| "matches FileSearch q = list_ex (\<lambda>k. contains k q) file_keywords"
| "matches Fallback q = True"

definition rule_order :: "rule list" where
  "rule_order =
     [Greeting, HowAreYou, Farewell, Wikipedia, OpenYoutube, OpenGoogle, WebSearch, Play,
      Time, Date, Joke, Weather, VolumeUp, VolumeDown, Mute, Unmute, VolumeAbsolute,
      BrightnessUp, BrightnessDown, TakeScreenshot, Shutdown, Restart, Sleep, Internet,
      Cpu, Ram, FileSearch, Fallback]"

text \<open>The events that put speech out, and the events that take a selection in.\<close>

fun is_speech :: "event \<Rightarrow> bool" where
  "is_speech (DeepgramSpeak t) = True"
| "is_speech (LocalSpeak t) = True"
| "is_speech ev = False"

fun is_capture :: "event \<Rightarrow> bool" where
  "is_capture (Listen t l) = True"
| "is_capture ev = False"

fun is_input :: "event \<Rightarrow> bool" where
  "is_input (Input p) = True"
| "is_input ev = False"

fun is_open :: "event \<Rightarrow> bool" where
  "is_open (OpenFile p) = True"
| "is_open ev = False"

fun is_search :: "event \<Rightarrow> bool" where
  "is_search (SearchFiles k) = True"
| "is_search ev = False"

section \<open>A sample environment\<close>

text \<open>
  Three files of the home directory match \<open>report\<close>; the voice capture of the selection
  times out and the user types \<open>2\<close>; Deepgram is not configured; the conversational
  fallback answers with blanks only.
\<close>

definition sample_env :: env where
  "sample_env =
     \<lparr>int_max_str_digits = 4300,
      now_time = ''12:00:00'',
      now_date = ''January 01, 2025'',
      deepgram_configured = False,
      deepgram_error = (\<lambda>text. None),
      wikipedia_summary = (\<lambda>topic. None),
      playonyt = (\<lambda>song. False),
      get_joke = None,
      weather_lookup = (\<lambda>city. ''Sunny.''),
      endpoint_volume = True,
      volume_error = None,
      sbc_present = False,
      get_brightness = None,
      screenshot_path = None,
      connected = True,
      cpu_percent = ''1.0'',
      memory_percent = ''2.0'',
      walk = [(''/home/u'', [''report.txt'', ''notes.md'', ''Report_old.txt'']),
              (''/home/u/docs'', [''annual report.pdf''])],
      path_join = (\<lambda>root fname. root @ ''/'' @ fname),
      open_error = (\<lambda>path. None),
      heard_selection = None,
      typed_selection = Some ''2'',
      gemini_client = True,
      gemini_reply = (\<lambda>prompt. Inr ''  '')\<rparr>"

section \<open>Tokens of a text, stated without the splitting function\<close>

text \<open>
  The notions in which the properties of the number parser are stated. They are not taken
  from the source: they say what a token of a text is without running \<open>re_split_W\<close>.
  \<open>cuts x\<close> lists the ways to cut \<open>x\<close> in two.
\<close>

fun cuts :: "'a list \<Rightarrow> ('a list \<times> 'a list) list" where
  "cuts [] = [([], [])]"
| "cuts (x # xs) = ([], x # xs) # map (\<lambda>(a, b). (x # a, b)) (cuts xs)"

text \<open>
  In the text \<open>pre @ t @ post\<close> the piece \<open>t\<close> is a token: a non-empty run of word
  characters that is maximal, with no word character right before it and none right after
  it.
\<close>

definition word_run :: "string \<Rightarrow> string \<Rightarrow> string \<Rightarrow> bool" where
  "word_run pre t post \<longleftrightarrow>
     t \<noteq> [] \<and> (\<forall>c\<in>set t. isword c)
     \<and> (pre = [] \<or> \<not> isword (last pre)) \<and> (post = [] \<or> \<not> isword (hd post))"

text \<open>No token of the text \<open>x\<close> is a key of \<open>WORD_NUMS\<close>.\<close>

definition key_free :: "string \<Rightarrow> bool" where
  "key_free x \<longleftrightarrow>
     (\<forall>(p1, r)\<in>set (cuts x). \<forall>(u, p2)\<in>set (cuts r).
        word_run p1 u p2 \<longrightarrow> map_of WORD_NUMS u = None)"

section \<open>Properties of the string operations and of the number parser\<close>

lemma ord_chr: "n < 256 \<Longrightarrow> ord (chr n) = n"
  by (simp add: ord_def chr_def)

lemma ord_lower_char:
  "ord (lower_char c) =
     (if (65 \<le> ord c \<and> ord c \<le> 90) \<or> (192 \<le> ord c \<and> ord c \<le> 222 \<and> ord c \<noteq> 215)
      then ord c + 32 else ord c)"
  by (auto simp: lower_char_def Let_def ord_chr)

lemma isdecimal_lower_char [simp]: "isdecimal (lower_char c) = isdecimal c"
  by (auto simp: isdecimal_def ord_lower_char)

lemma isspace_lower_char [simp]: "isspace (lower_char c) = isspace c"
  by (auto simp: isspace_def ord_lower_char Let_def)

lemma lower_char_decimal: "isdecimal c \<Longrightarrow> lower_char c = c"
  by (auto simp: isdecimal_def lower_char_def Let_def)

lemma lower_char_idem [simp]: "lower_char (lower_char c) = lower_char c"
proof -
  have "ord (lower_char (lower_char c)) = ord (lower_char c)"
    by (subst ord_lower_char) (auto simp: ord_lower_char)
  then show ?thesis by (simp add: ord_def)
qed

lemma decimal_not_space: "isdecimal c \<Longrightarrow> \<not> isspace c"
  by (auto simp: isdecimal_def isspace_def Let_def)

lemma decimal_word: "isdecimal c \<Longrightarrow> isword c"
  by (auto simp: isdecimal_def isword_def Let_def)

lemma strip_decomp: "\<exists>a b. s = a @ strip s @ b \<and> list_all isspace a \<and> list_all isspace b"
proof -
  let ?r = "dropWhile isspace s"
  have 1: "s = takeWhile isspace s @ ?r" by simp
  have 2: "rev ?r = takeWhile isspace (rev ?r) @ dropWhile isspace (rev ?r)" by simp
  then have "?r = strip s @ rev (takeWhile isspace (rev ?r))"
    by (metis rev_append rev_rev_ident strip_def)
  with 1 have "s = takeWhile isspace s @ strip s @ rev (takeWhile isspace (rev ?r))" by simp
  moreover have "list_all isspace (takeWhile isspace s)"
    by (simp add: list_all_iff) (meson set_takeWhileD)
  moreover have "list_all isspace (rev (takeWhile isspace (rev ?r)))"
    by (simp add: list_all_iff) (meson set_takeWhileD)
  ultimately show ?thesis by blast
qed


lemma search_digits_prefix:
  "\<forall>c\<in>set a. \<not> isdecimal c \<Longrightarrow> search_digits (a @ t) = search_digits t"
  by (simp add: search_digits_def dropWhile_append)

lemma search_digits_suffix:
  assumes "\<forall>c\<in>set b. \<not> isdecimal c"
  shows "search_digits (t @ b) = search_digits t"
proof (cases "dropWhile (\<lambda>c. \<not> isdecimal c) t = []")
  case True
  then have "\<forall>c\<in>set t. \<not> isdecimal c" by (simp add: dropWhile_eq_Nil_conv)
  with assms True show ?thesis by (simp add: search_digits_def dropWhile_append)
next
  case False
  then obtain x where x: "x \<in> set t" "isdecimal x"
    by (auto simp: dropWhile_eq_Nil_conv)
  then have d: "dropWhile (\<lambda>c. \<not> isdecimal c) (t @ b) = dropWhile (\<lambda>c. \<not> isdecimal c) t @ b"
    by (auto simp: dropWhile_append)
  have "takeWhile isdecimal b = []" using assms by (cases b) auto
  then have "takeWhile isdecimal (r @ b) = takeWhile isdecimal r" for r
    by (induction r) auto
  with d False show ?thesis by (simp add: search_digits_def Let_def)
qed

lemma search_digits_lower: "search_digits (lower t) = search_digits t"
proof -
  have c: "(\<lambda>c. \<not> isdecimal c) \<circ> lower_char = (\<lambda>c. \<not> isdecimal c)" by (simp add: fun_eq_iff)
  have c': "isdecimal \<circ> lower_char = isdecimal" by (simp add: fun_eq_iff)
  have "map lower_char (takeWhile isdecimal r) = takeWhile isdecimal r" for r
    by (rule map_idI) (auto dest: set_takeWhileD simp: lower_char_decimal)
  then show ?thesis
    by (simp add: search_digits_def lower_def dropWhile_map takeWhile_map c c' Let_def)
qed

lemma search_digits_normal: "search_digits (lower (strip s)) = search_digits s"
proof -
  obtain a b where ab: "s = a @ strip s @ b" "list_all isspace a" "list_all isspace b"
    using strip_decomp by blast
  then have "\<forall>c\<in>set a. \<not> isdecimal c" "\<forall>c\<in>set b. \<not> isdecimal c"
    by (auto simp: list_all_iff dest: decimal_not_space)
  then have "search_digits (a @ strip s @ b) = search_digits (strip s)"
    by (simp add: search_digits_prefix search_digits_suffix)
  with ab(1) show ?thesis by (simp add: search_digits_lower)
qed

lemma search_digits_Some:
  assumes "search_digits s = Some g"
  shows "g \<noteq> []" and "\<forall>c\<in>set g. isdecimal c"
proof -
  let ?r = "dropWhile (\<lambda>c. \<not> isdecimal c) s"
  from assms have r: "?r \<noteq> []" and g: "g = takeWhile isdecimal ?r"
    by (auto simp: search_digits_def Let_def split: if_splits)
  from r have "isdecimal (hd ?r)" using hd_dropWhile by metis
  with r g show "g \<noteq> []" by (cases ?r) auto
  from g show "\<forall>c\<in>set g. isdecimal c" by (auto dest: set_takeWhileD)
qed

lemma search_digits_decomp:
  assumes "s = pre @ g @ post" "\<forall>c\<in>set pre. \<not> isdecimal c" "g \<noteq> []"
    "\<forall>c\<in>set g. isdecimal c" "post = [] \<or> \<not> isdecimal (hd post)"
  shows "search_digits s = Some g"
proof -
  have "dropWhile (\<lambda>c. \<not> isdecimal c) (g @ post) = g @ post"
    using assms(3,4) by (cases g) auto
  moreover have "takeWhile isdecimal (g @ post) = g"
    using assms(4,5) by (cases post) (auto simp: takeWhile_append)
  ultimately show ?thesis
    using assms(1,2,3) by (simp add: search_digits_def dropWhile_append Let_def)
qed

lemma search_digits_None: "search_digits s = None \<longleftrightarrow> (\<forall>c\<in>set s. \<not> isdecimal c)"
  by (auto simp: search_digits_def Let_def dropWhile_eq_Nil_conv)

lemma contains_set: "contains sub s \<Longrightarrow> set sub \<subseteq> set s"
proof (induction s)
  case Nil
  then show ?case by simp
next
  case (Cons c cs)
  show ?case
  proof (cases "prefix sub (c # cs)")
    case True
    then show ?thesis by (rule set_mono_prefix)
  next
    case False
    with Cons have "set sub \<subseteq> set cs" by simp
    then show ?thesis by auto
  qed
qed

lemma trim_id:
  "s \<noteq> [] \<Longrightarrow> \<not> P (hd s) \<Longrightarrow> \<not> P (last s) \<Longrightarrow> rev (dropWhile P (rev (dropWhile P s))) = s"
proof -
  assume a: "s \<noteq> []" "\<not> P (hd s)" "\<not> P (last s)"
  then have "dropWhile P s = s" by (cases s) auto
  moreover have "dropWhile P (rev s) = rev s"
    using a by (cases "rev s") (auto simp: last_rev hd_rev)
  ultimately show ?thesis by simp
qed

lemma strip_id: "s \<noteq> [] \<Longrightarrow> \<not> isspace (hd s) \<Longrightarrow> \<not> isspace (last s) \<Longrightarrow> strip s = s"
  unfolding strip_def by (rule trim_id)

lemma py_int_digits:
  assumes "g \<noteq> []" "\<forall>c\<in>set g. isdecimal c"
  shows "py_int lim g = (if lim \<noteq> 0 \<and> lim < length g then None else Some (int (dec_val g)))"
proof -
  have hl: "isdecimal (hd g)" "isdecimal (last g)" using assms by auto
  then have s: "rev (dropWhile int_space (rev (dropWhile int_space g))) = g"
    using assms(1) by (intro trim_id) (simp_all add: int_space_def decimal_not_space)
  have u: "\<not> isdecimal (CHR ''_'')" "\<not> isdecimal (CHR ''-'')" "\<not> isdecimal (CHR ''+'')"
    by (simp_all add: isdecimal_def ord_def)
  have nc: "\<not> contains ''__'' g"
  proof
    assume "contains ''__'' g"
    then have "CHR ''_'' \<in> set g" using contains_set by fastforce
    with assms(2) u show False by blast
  qed
  have sg: "hd g \<noteq> CHR ''-''" "hd g \<noteq> CHR ''+''" using hl u by auto
  have f: "filter isdecimal g = g" using assms(2) by (simp add: filter_id_conv)
  have "literal_digits g = Some g"
    using assms hl nc f by (simp add: literal_digits_def list_all_iff)
  with s sg show ?thesis by (simp add: py_int_def Let_def)
qed

lemma parse_digits:
  assumes "search_digits s = Some g" "lim = 0 \<or> length g \<le> lim"
  shows "parse_spoken_number lim s = int (dec_val g)"
proof -
  have n: "search_digits (lower (strip s)) = Some g" using assms(1) by (simp add: search_digits_normal)
  then have ne: "lower (strip s) \<noteq> []" by (auto simp: search_digits_def)
  have "py_int lim g = Some (int (dec_val g))"
    using search_digits_Some[OF assms(1)] assms(2) by (auto simp: py_int_digits)
  with n ne show ?thesis by (simp add: parse_spoken_number_def Let_def)
qed

lemma parse_overlong:
  assumes "search_digits s = Some g" "lim \<noteq> 0" "lim < length g"
  shows "parse_spoken_number lim s = scan_tokens (re_split_W (lower (strip s)))"
proof -
  have n: "search_digits (lower (strip s)) = Some g" using assms(1) by (simp add: search_digits_normal)
  then have ne: "lower (strip s) \<noteq> []" by (auto simp: search_digits_def)
  have "py_int lim g = None"
    using search_digits_Some[OF assms(1)] assms(2,3) by (auto simp: py_int_digits)
  with n ne show ?thesis by (simp add: parse_spoken_number_def Let_def)
qed

lemmas char_eval = ord_def chr_def char_of_def bit_0 isspace_def isdecimal_def isword_def
  lower_char_def Let_def

lemma scan_tokens_find:
  "scan_tokens ts =
     (case find (\<lambda>t. map_of WORD_NUMS t \<noteq> None) ts of
        Some t \<Rightarrow> the (map_of WORD_NUMS t) | None \<Rightarrow> - 1)"
  by (induction ts) (auto split: option.splits)

lemma WORD_NUMS_range: "map_of WORD_NUMS t = Some v \<Longrightarrow> 0 \<le> v \<and> v \<le> 10"
  by (auto simp: WORD_NUMS_def split: if_splits)

lemma WORD_NUMS_key_length: "map_of WORD_NUMS t = Some v \<Longrightarrow> length t \<le> 7"
  by (auto simp: WORD_NUMS_def split: if_splits)

lemma scan_tokens_range: "- 1 \<le> scan_tokens ts \<and> scan_tokens ts \<le> 10"
  by (induction ts) (auto split: option.splits dest: WORD_NUMS_range)

lemma parse_no_digits:
  assumes "\<forall>c\<in>set s. \<not> isdecimal c"
  shows "parse_spoken_number lim s = scan_tokens (re_split_W (lower (strip s)))"
proof -
  have "search_digits (lower (strip s)) = None"
    using assms by (simp add: search_digits_normal search_digits_None)
  moreover have "scan_tokens (re_split_W []) = - 1"
    by (simp add: re_split_W.simps WORD_NUMS_def)
  ultimately show ?thesis by (simp add: parse_spoken_number_def Let_def)
qed

lemma parse_range: "- 1 \<le> parse_spoken_number lim s \<and> parse_spoken_number lim s \<le> 10 \<or>
   (\<exists>g. search_digits s = Some g \<and> parse_spoken_number lim s = int (dec_val g))"
proof (cases "search_digits s")
  case None
  then show ?thesis
    using scan_tokens_range by (simp add: search_digits_None parse_no_digits)
next
  case (Some g)
  show ?thesis
  proof (cases "lim = 0 \<or> length g \<le> lim")
    case True
    with Some show ?thesis by (simp add: parse_digits)
  next
    case False
    with Some show ?thesis using scan_tokens_range by (simp add: parse_overlong)
  qed
qed

lemma strip_blank: "strip s = [] \<longleftrightarrow> (\<forall>c\<in>set s. isspace c)"
proof
  assume "strip s = []"
  then have "\<forall>x\<in>set (dropWhile isspace s). isspace x"
    by (simp add: strip_def dropWhile_eq_Nil_conv)
  then have "dropWhile isspace s = []"
    by (metis hd_dropWhile list.set_sel(1))
  then show "\<forall>c\<in>set s. isspace c" by (simp add: dropWhile_eq_Nil_conv)
next
  assume "\<forall>c\<in>set s. isspace c"
  then have d: "dropWhile isspace s = []" by (simp add: dropWhile_eq_Nil_conv)
  show "strip s = []" by (simp only: strip_def d) simp
qed

text \<open>
  The tokens that \<open>re_split_W\<close> produces are the maximal runs of word characters, from
  left to right: the scan returns the value of the left-most token that is a key, and
  \<open>-1\<close> when no token is a key; one of the two cases always applies.
\<close>

lemma set_cuts: "set (cuts x) = {(a, b). x = a @ b}"
  by (induction x) (auto simp: Cons_eq_append_conv)

lemma key_free_iff:
  "key_free x \<longleftrightarrow>
     (\<forall>p1 u p2. x = p1 @ u @ p2 \<and> word_run p1 u p2 \<longrightarrow> map_of WORD_NUMS u = None)"
  by (auto simp: key_free_def set_cuts)

lemma no_empty_key: "map_of WORD_NUMS [] = None"
  by (simp add: WORD_NUMS_def)

lemma first_token_no_key:
  assumes k: "key_free (w @ r)" and w: "\<forall>c\<in>set w. isword c" and r: "r = [] \<or> \<not> isword (hd r)"
  shows "map_of WORD_NUMS w = None"
proof (cases "w = []")
  case True
  then show ?thesis by (simp add: no_empty_key)
next
  case False
  with w r have "word_run [] w r" by (simp add: word_run_def)
  moreover have "w @ r = [] @ w @ r" by simp
  ultimately show ?thesis using k unfolding key_free_iff by blast
qed

lemma key_free_rest:
  assumes k: "key_free (w @ x @ r)" and x: "x \<noteq> []" "\<forall>c\<in>set x. \<not> isword c"
  shows "key_free r"
  unfolding key_free_iff
proof (intro allI impI)
  fix p1 u p2
  assume a: "r = p1 @ u @ p2 \<and> word_run p1 u p2"
  have l: "\<not> isword (last (w @ x @ p1))"
  proof (cases "p1 = []")
    case True
    then show ?thesis using x by simp
  next
    case False
    then show ?thesis using a by (simp add: word_run_def)
  qed
  have "word_run (w @ x @ p1) u p2" using a l by (simp add: word_run_def)
  moreover have "w @ x @ r = (w @ x @ p1) @ u @ p2" using a by simp
  ultimately show "map_of WORD_NUMS u = None" using k unfolding key_free_iff by blast
qed

lemma split_step:
  assumes "dropWhile isword s \<noteq> []"
  shows "\<exists>x. x \<noteq> [] \<and> (\<forall>c\<in>set x. \<not> isword c)
           \<and> s = takeWhile isword s @ x @ dropWhile (\<lambda>c. \<not> isword c) (dropWhile isword s)
           \<and> (x @ dropWhile (\<lambda>c. \<not> isword c) (dropWhile isword s) = []
                \<or> \<not> isword (hd (x @ dropWhile (\<lambda>c. \<not> isword c) (dropWhile isword s))))"
proof -
  let ?r = "dropWhile isword s"
  let ?x = "takeWhile (\<lambda>c. \<not> isword c) ?r"
  have h: "\<not> isword (hd ?r)" using assms by (rule hd_dropWhile)
  from assms obtain c cs where c: "?r = c # cs" by (cases ?r) auto
  with h have nc: "\<not> isword c" by simp
  have 1: "?x \<noteq> []" by (simp add: c nc)
  have 2: "\<forall>c\<in>set ?x. \<not> isword c" by (auto dest: set_takeWhileD)
  have 3: "s = takeWhile isword s @ ?x @ dropWhile (\<lambda>c. \<not> isword c) ?r" by simp
  have 4: "\<not> isword (hd (?x @ dropWhile (\<lambda>c. \<not> isword c) ?r))" by (simp add: c nc)
  from 1 2 3 4 show ?thesis by blast
qed

lemma scan_none: "key_free n \<Longrightarrow> scan_tokens (re_split_W n) = - 1"
proof (induction n rule: re_split_W.induct)
  case (1 s)
  let ?w = "takeWhile isword s"
  let ?r = "dropWhile isword s"
  have ww: "\<forall>c\<in>set ?w. isword c" by (auto dest: set_takeWhileD)
  show ?case
  proof (cases "?r = []")
    case True
    then have "s = ?w @ []" by (metis takeWhile_dropWhile_id append_Nil2)
    then have "key_free (?w @ [])" using 1(2) by simp
    then have "map_of WORD_NUMS ?w = None" using ww by (rule first_token_no_key) simp
    then show ?thesis using True by (subst re_split_W.simps) (simp add: Let_def)
  next
    case False
    from split_step [OF False] obtain x where x: "x \<noteq> []" "\<forall>c\<in>set x. \<not> isword c"
      "s = ?w @ x @ dropWhile (\<lambda>c. \<not> isword c) ?r"
      "x @ dropWhile (\<lambda>c. \<not> isword c) ?r = [] \<or> \<not> isword (hd (x @ dropWhile (\<lambda>c. \<not> isword c) ?r))"
      by blast
    have k: "key_free (?w @ x @ dropWhile (\<lambda>c. \<not> isword c) ?r)" using 1(2) x(3) by simp
    have "map_of WORD_NUMS ?w = None" using k ww x(4) by (rule first_token_no_key)
    moreover have "key_free (dropWhile (\<lambda>c. \<not> isword c) ?r)" using k x(1,2) by (rule key_free_rest)
    then have "scan_tokens (re_split_W (dropWhile (\<lambda>c. \<not> isword c) ?r)) = - 1"
      using False by (intro 1(1)) simp_all
    ultimately show ?thesis using False by (subst re_split_W.simps) (simp add: Let_def)
  qed
qed

lemma scan_leftmost:
  assumes "word_run pre t post" and "key_free pre" and "map_of WORD_NUMS t = Some v"
  shows "scan_tokens (re_split_W (pre @ t @ post)) = v"
  using assms
proof (induction "length pre" arbitrary: pre rule: less_induct)
  case less
  have tw: "\<forall>c\<in>set t. isword c" and tn: "t \<noteq> []" and po: "post = [] \<or> \<not> isword (hd post)"
    using less.prems(1) by (simp_all add: word_run_def)
  show ?case
  proof (cases "pre = []")
    case True
    have "takeWhile isword (t @ post) = t"
    proof (cases post)
      case Nil
      then show ?thesis using tw by simp
    next
      case (Cons c cs)
      with po have "\<not> isword c" by simp
      then show ?thesis using tw Cons by (simp add: takeWhile_tail)
    qed
    then show ?thesis using True less.prems(3)
      by (subst re_split_W.simps) (simp add: Let_def)
  next
    case False
    let ?s = "pre @ t @ post"
    let ?w = "takeWhile isword pre"
    let ?r = "dropWhile isword pre"
    have lp: "\<not> isword (last pre)" using less.prems(1) False by (simp add: word_run_def)
    have ex: "\<exists>c\<in>set pre. \<not> isword c" using False lp last_in_set by blast
    then have rn: "?r \<noteq> []" by (simp add: dropWhile_eq_Nil_conv)
    from ex obtain c where c: "c \<in> set pre" "\<not> isword c" by blast
    have tk: "takeWhile isword ?s = ?w" using c by (rule takeWhile_append1)
    have dr: "dropWhile isword ?s = ?r @ t @ post" using c by (rule dropWhile_append1)
    from split_step [OF rn] obtain x where x: "x \<noteq> []" "\<forall>c\<in>set x. \<not> isword c"
      "pre = ?w @ x @ dropWhile (\<lambda>c. \<not> isword c) ?r"
      "x @ dropWhile (\<lambda>c. \<not> isword c) ?r = [] \<or> \<not> isword (hd (x @ dropWhile (\<lambda>c. \<not> isword c) ?r))"
      by blast
    let ?p = "dropWhile (\<lambda>c. \<not> isword c) ?r"
    have ht: "isword (hd t)" using tw tn by simp
    have d2: "dropWhile (\<lambda>c. \<not> isword c) (?r @ t @ post) = ?p @ t @ post"
    proof (cases "?p = []")
      case True
      then have a: "\<And>c. c \<in> set ?r \<Longrightarrow> \<not> isword c"
        unfolding dropWhile_eq_Nil_conv by blast
      have "dropWhile (\<lambda>c. \<not> isword c) (?r @ t @ post)
              = dropWhile (\<lambda>c. \<not> isword c) (t @ post)"
        using a by (rule dropWhile_append2)
      also have "\<dots> = t @ post" using tn ht by (cases t) simp_all
      finally show ?thesis by (simp only: True append_Nil)
    next
      case False
      then obtain d where d: "d \<in> set ?r" "\<not> \<not> isword d"
        unfolding dropWhile_eq_Nil_conv by blast
      then show ?thesis by (rule dropWhile_append1)
    qed
    have ww: "\<forall>c\<in>set ?w. isword c" by (auto dest: set_takeWhileD)
    have k: "key_free (?w @ x @ ?p)" using less.prems(2) x(3) by simp
    have wn: "map_of WORD_NUMS ?w = None" using k ww x(4) by (rule first_token_no_key)
    have kp: "key_free ?p" using k x(1,2) by (rule key_free_rest)
    have len: "length ?p < length pre"
    proof -
      have "length pre = length ?w + length x + length ?p" by (subst x(3)) simp
      then show ?thesis using x(1) by (cases x) simp_all
    qed
    have lastp: "?p = [] \<or> \<not> isword (last ?p)"
    proof (cases "?p = []")
      case False
      then have "last pre = last ?p" by (subst x(3)) simp
      then show ?thesis using lp by simp
    qed simp
    have wr: "word_run ?p t post" using tw tn po lastp by (simp add: word_run_def)
    have ih: "scan_tokens (re_split_W (?p @ t @ post)) = v"
      using len wr kp less.prems(3) by (rule less.hyps)
    have ne: "?r @ t @ post \<noteq> []" using tn by simp
    show ?thesis
      by (subst re_split_W.simps) (simp add: Let_def tk dr d2 ih wn ne tn del: append_assoc)
  qed
qed

lemma leftmost_key_run:
  assumes "\<not> key_free n"
  shows "\<exists>pre t post v. n = pre @ t @ post \<and> word_run pre t post \<and> key_free pre
           \<and> map_of WORD_NUMS t = Some v"
proof -
  define P where "P k \<longleftrightarrow> (\<exists>p1 u p2. n = p1 @ u @ p2 \<and> length p1 = k \<and> word_run p1 u p2
                         \<and> map_of WORD_NUMS u \<noteq> None)" for k
  from assms have "\<exists>k. P k" unfolding key_free_iff P_def by blast
  then obtain k where k: "P k" and m: "\<forall>j<k. \<not> P j"
    using exists_least_iff [of P] by blast
  from k obtain p1 u p2 where d: "n = p1 @ u @ p2" "length p1 = k" "word_run p1 u p2"
    "map_of WORD_NUMS u \<noteq> None" unfolding P_def by blast
  have "key_free p1"
    unfolding key_free_iff
  proof (intro allI impI)
    fix q1 u' q2
    assume a: "p1 = q1 @ u' @ q2 \<and> word_run q1 u' q2"
    then have un: "u' \<noteq> []" and uw: "\<forall>c\<in>set u'. isword c" by (simp_all add: word_run_def)
    have q2: "q2 \<noteq> []"
    proof
      assume e: "q2 = []"
      with a un have "last p1 = last u'" by simp
      moreover have "isword (last u')" using un uw by simp
      moreover have "p1 \<noteq> []" using a un by simp
      ultimately show False using d(3) by (simp add: word_run_def)
    qed
    have "word_run q1 u' (q2 @ u @ p2)" using a q2 by (simp add: word_run_def)
    moreover have "n = q1 @ u' @ (q2 @ u @ p2)" using d(1) a by simp
    moreover have "length q1 < k" using d(2) a un by (cases u') auto
    ultimately show "map_of WORD_NUMS u' = None" using m unfolding P_def by blast
  qed
  with d show ?thesis by blast
qed

text \<open>
  Claim C2, as the code has it. The input contains a run of decimal digits; the first
  (left-most, maximal) run is given by a decomposition of the input: no digit before it,
  digits only in it, no digit right after it. When \<open>int\<close> converts the run, that is
  when the interpreter's limit on integer string conversion is off or the run has no more
  digits than the limit, \<open>parse_spoken_number\<close> returns the value of the run, whatever
  number words stand beside it. When the run has more digits than the limit, \<open>int\<close>
  raises, the error is swallowed and the word table decides: the result is the value of
  the left-most token of the lower-cased, stripped text that is a key of \<open>WORD_NUMS\<close>,
  and \<open>-1\<close> when no token is a key.
\<close>

theorem parse_spoken_number_digit_run:
  assumes "s = pre @ g @ post" and "\<forall>c\<in>set pre. \<not> isdecimal c"
    and "g \<noteq> []" and "\<forall>c\<in>set g. isdecimal c"
    and "post = [] \<or> \<not> isdecimal (hd post)"
  shows "(lim = 0 \<or> length g \<le> lim \<longrightarrow> parse_spoken_number lim s = int (dec_val g))
       \<and> (lim \<noteq> 0 \<and> lim < length g \<longrightarrow>
            (\<forall>a t b v. lower (strip s) = a @ t @ b \<and> word_run a t b \<and> key_free a
                 \<and> map_of WORD_NUMS t = Some v \<longrightarrow> parse_spoken_number lim s = v)
            \<and> (key_free (lower (strip s)) \<longrightarrow> parse_spoken_number lim s = - 1))"
proof -
  have sd: "search_digits s = Some g" using assms by (rule search_digits_decomp)
  have 1: "parse_spoken_number lim s = int (dec_val g)" if "lim = 0 \<or> length g \<le> lim"
    using sd that by (rule parse_digits)
  have 2: "parse_spoken_number lim s = v"
    if l: "lim \<noteq> 0 \<and> lim < length g"
      and d: "lower (strip s) = a @ t @ b \<and> word_run a t b \<and> key_free a
              \<and> map_of WORD_NUMS t = Some v"
    for a t b v
  proof -
    have "parse_spoken_number lim s = scan_tokens (re_split_W (lower (strip s)))"
      using sd conjunct1 [OF l] conjunct2 [OF l] by (rule parse_overlong)
    also have "\<dots> = scan_tokens (re_split_W (a @ t @ b))" using d by simp
    also have "\<dots> = v" using d by (intro scan_leftmost) simp_all
    finally show ?thesis .
  qed
  have 3: "parse_spoken_number lim s = - 1"
    if l: "lim \<noteq> 0 \<and> lim < length g" and k: "key_free (lower (strip s))"
  proof -
    have "parse_spoken_number lim s = scan_tokens (re_split_W (lower (strip s)))"
      using sd conjunct1 [OF l] conjunct2 [OF l] by (rule parse_overlong)
    also have "\<dots> = - 1" using k by (rule scan_none)
    finally show ?thesis .
  qed
  from 1 2 3 show ?thesis by blast
qed

text \<open>
  Claim C2, witness: \<open>"two 3"\<close> gives 3 under the default limit, and \<open>"Two "\<close>
  followed by 4301 digits gives 2, the value of the word.
\<close>

theorem parse_spoken_number_digit_run_witness:
  "parse_spoken_number 4300 ''two 3'' = 3
   \<and> parse_spoken_number 4300 (''Two '' @ replicate 4301 (CHR ''1'')) = 2"
proof -
  have 1: "parse_spoken_number 4300 ''two 3'' = 3"
    using parse_spoken_number_digit_run [of "''two 3''" "''two ''" "''3''" "[]" 4300]
    by (simp add: dec_val_def digit_val_def char_eval)
  define r where "r = replicate 4301 (CHR ''1'')"
  have rl: "length r = 4301" by (simp add: r_def)
  have rd: "\<forall>c\<in>set r. isdecimal c" by (simp add: r_def isdecimal_def ord_def)
  have rn: "r \<noteq> []" using rl by auto
  have ls: "\<not> isspace (last r)" using rn rd by (simp add: decimal_not_space)
  have s: "strip (''Two '' @ r) = ''Two '' @ r"
    by (rule strip_id) (simp_all add: rn ls, simp add: char_eval)
  have "map lower_char r = r" using rd by (simp add: map_idI lower_char_decimal)
  then have l: "lower (''Two '' @ r) = ''two '' @ r"
    by (simp add: lower_def) (simp add: char_eval)
  have n: "lower (strip (''Two '' @ r)) = [] @ ''two'' @ ('' '' @ r)"
    by (simp only: s l) simp
  have w: "word_run [] ''two'' ('' '' @ r)" by (simp add: word_run_def char_eval)
  have k: "key_free []" by (simp add: key_free_def word_run_def)
  have m: "map_of WORD_NUMS ''two'' = Some 2" by (simp add: WORD_NUMS_def)
  have p: "\<forall>c\<in>set ''Two ''. \<not> isdecimal c" by (simp add: char_eval)
  have e: "''Two '' @ r = ''Two '' @ r @ []" by simp
  have q: "[] = [] \<or> \<not> isdecimal (hd [])" by simp
  have o: "(4300::nat) \<noteq> 0 \<and> 4300 < length r" by (simp add: rl)
  have 2: "parse_spoken_number 4300 (''Two '' @ r) = 2"
    using parse_spoken_number_digit_run [OF e p rn rd q, of 4300] o n w k m by blast
  from 1 2 show ?thesis unfolding r_def by (rule conjI)
qed

text \<open>
  Claim C2, counterexample to the claim as stated: under the default limit of 4300 digits
  a run of 4301 digits makes \<open>int\<close> raise; the \<open>except\<close> clause swallows the
  error, the word scan finds no number word, and the result is \<open>-1\<close>, not the value
  of the run.
\<close>

theorem parse_spoken_number_overlong_run:
  "parse_spoken_number 4300 (replicate 4301 (CHR ''1'')) = - 1"
proof -
  let ?r = "replicate 4301 (CHR ''1'')"
  have d: "isdecimal (CHR ''1'')" by (simp add: isdecimal_def ord_def)
  have sd: "search_digits ?r = Some ?r"
    by (rule search_digits_decomp [of _ "[]" _ "[]"]) (simp_all add: d)
  have l: "lower ?r = ?r"
    by (simp add: lower_def lower_char_decimal d)
  have s: "strip ?r = ?r"
    by (rule strip_id) (simp_all add: decimal_not_space d hd_replicate last_replicate)
  have w: "re_split_W ?r = [?r]"
    by (subst re_split_W.simps) (simp add: decimal_word d Let_def)
  have "map_of WORD_NUMS ?r = None"
  proof (cases "map_of WORD_NUMS ?r")
    case (Some v)
    then have "length ?r \<le> 7" by (rule WORD_NUMS_key_length)
    then show ?thesis by simp
  qed simp
  then have "scan_tokens [?r] = - 1" by simp
  moreover have "parse_spoken_number 4300 ?r = scan_tokens (re_split_W (lower (strip ?r)))"
    using sd by (rule parse_overlong) simp_all
  ultimately show ?thesis by (simp add: s l w)
qed

text \<open>
  Claim C3, as the code has it. On an input without any decimal digit,
  \<open>parse_spoken_number\<close> works on the lower-cased, stripped text: it returns the table
  value of the left-most token of that text that is a key of \<open>WORD_NUMS\<close>, and \<open>-1\<close>
  when no token is a key; one of the two always applies. A blank input gives \<open>-1\<close>.
  The result lies between \<open>-1\<close> and 10 and is compared with no maximum index: the
  function takes none. The table maps the homophones and the ordinals as listed and has
  exactly the values 0 to 10.
\<close>

theorem parse_spoken_number_words:
  assumes "\<forall>c\<in>set s. \<not> isdecimal c" and "n = lower (strip s)"
  shows "(\<forall>pre t post v. n = pre @ t @ post \<and> word_run pre t post \<and> key_free pre
              \<and> map_of WORD_NUMS t = Some v \<longrightarrow> parse_spoken_number lim s = v)
       \<and> (key_free n \<longrightarrow> parse_spoken_number lim s = - 1)
       \<and> (key_free n \<or> (\<exists>pre t post v. n = pre @ t @ post \<and> word_run pre t post
                            \<and> key_free pre \<and> map_of WORD_NUMS t = Some v))
       \<and> ((\<forall>c\<in>set s. isspace c) \<longrightarrow> parse_spoken_number lim s = - 1)
       \<and> - 1 \<le> parse_spoken_number lim s \<and> parse_spoken_number lim s \<le> 10
       \<and> map (map_of WORD_NUMS) [''to'', ''too'', ''for'', ''ate'']
           = [Some 2, Some 2, Some 4, Some 8]
       \<and> map (map_of WORD_NUMS)
           [''first'', ''second'', ''third'', ''fourth'', ''fifth'',
            ''sixth'', ''seventh'', ''eighth'', ''ninth'', ''tenth'']
           = map Some [1, 2, 3, 4, 5, 6, 7, 8, 9, 10]
       \<and> snd ` set WORD_NUMS = {0..10}"
proof -
  have p: "parse_spoken_number lim s = scan_tokens (re_split_W n)"
    unfolding assms(2) using assms(1) by (rule parse_no_digits)
  have a: "parse_spoken_number lim s = v"
    if "n = pre @ t @ post \<and> word_run pre t post \<and> key_free pre
        \<and> map_of WORD_NUMS t = Some v" for pre t post v
  proof -
    have "scan_tokens (re_split_W (pre @ t @ post)) = v"
      using that by (intro scan_leftmost) simp_all
    with that show ?thesis by (simp add: p)
  qed
  have a2: "key_free n \<longrightarrow> parse_spoken_number lim s = - 1"
    by (simp add: p scan_none)
  have a3: "key_free n \<or> (\<exists>pre t post v. n = pre @ t @ post \<and> word_run pre t post
                            \<and> key_free pre \<and> map_of WORD_NUMS t = Some v)"
    using leftmost_key_run [of n] by blast
  have b: "(\<forall>c\<in>set s. isspace c) \<longrightarrow> parse_spoken_number lim s = - 1"
  proof
    assume "\<forall>c\<in>set s. isspace c"
    then have "strip s = []" by (simp add: strip_blank)
    then show "parse_spoken_number lim s = - 1"
      by (simp add: parse_spoken_number_def lower_def)
  qed
  have c: "- 1 \<le> parse_spoken_number lim s \<and> parse_spoken_number lim s \<le> 10"
    using scan_tokens_range by (simp add: p)
  have d: "map (map_of WORD_NUMS) [''to'', ''too'', ''for'', ''ate'']
             = [Some 2, Some 2, Some 4, Some 8]"
    by (simp add: WORD_NUMS_def)
  have e: "map (map_of WORD_NUMS)
             [''first'', ''second'', ''third'', ''fourth'', ''fifth'',
              ''sixth'', ''seventh'', ''eighth'', ''ninth'', ''tenth'']
             = map Some [1, 2, 3, 4, 5, 6, 7, 8, 9, 10]"
    by (simp add: WORD_NUMS_def)
  have f: "snd ` set WORD_NUMS = {0..10}"
  proof -
    have "snd ` set WORD_NUMS = {0, 1, 2, 3, 4, 5, 6, 7, 8, 9, 10}"
      by (auto simp: WORD_NUMS_def)
    also have "\<dots> = {0..10::int}" by auto arith
    finally show ?thesis .
  qed
  from a a2 a3 b c d e f show ?thesis by blast
qed

text \<open>
  Claim C3, witness: \<open>"Or second, third"\<close> gives 2, \<open>"tone"\<close>, which holds the letters
  of two keys but is no key, gives \<open>-1\<close>, and a blank input gives \<open>-1\<close>.
\<close>

theorem parse_spoken_number_words_witness:
  "parse_spoken_number 4300 ''Or second, third'' = 2
   \<and> parse_spoken_number 4300 ''tone'' = - 1
   \<and> parse_spoken_number 4300 ''   '' = - 1"
proof -
  have n1: "\<forall>c\<in>set ''Or second, third''. \<not> isdecimal c" by (simp add: char_eval)
  have l1: "''or '' @ ''second'' @ '', third'' = lower (strip ''Or second, third'')"
    by (simp add: lower_def strip_def char_eval)
  have w1: "word_run ''or '' ''second'' '', third''" by (simp add: word_run_def char_eval)
  have k1: "key_free ''or ''" by (simp add: key_free_def word_run_def char_eval WORD_NUMS_def)
  have m1: "map_of WORD_NUMS ''second'' = Some 2" by (simp add: WORD_NUMS_def)
  have 1: "parse_spoken_number 4300 ''Or second, third'' = 2"
    using parse_spoken_number_words [OF n1 l1, of 4300] w1 k1 m1 by blast
  have n2: "\<forall>c\<in>set ''tone''. \<not> isdecimal c" by (simp add: char_eval)
  have l2: "''tone'' = lower (strip ''tone'')" by (simp add: lower_def strip_def char_eval)
  have k2: "key_free ''tone''" by (simp add: key_free_def word_run_def char_eval WORD_NUMS_def)
  have 2: "parse_spoken_number 4300 ''tone'' = - 1"
    using parse_spoken_number_words [OF n2 l2, of 4300] k2 by blast
  have n3: "\<forall>c\<in>set ''   ''. \<not> isdecimal c" "\<forall>c\<in>set ''   ''. isspace c"
    by (simp_all add: char_eval)
  have 3: "parse_spoken_number 4300 ''   '' = - 1"
    using parse_spoken_number_words [OF n3(1) refl, of 4300] n3(2) by blast
  from 1 2 3 show ?thesis by simp
qed

text \<open>
  Claim C3, counterexample to the claim as stated: in \<open>"Second or third"\<close> as it is
  given, the left-most token that is a key of the table is \<open>"third"\<close>, with the value 3,
  since the table has no key \<open>"Second"\<close>; the function returns 2, because it lower-cases
  the input before it splits it.
\<close>

theorem parse_spoken_number_case_folded:
  "parse_spoken_number 4300 ''Second or third'' = 2
   \<and> word_run ''Second or '' ''third'' [] \<and> key_free ''Second or ''
   \<and> map_of WORD_NUMS ''third'' = Some 3"
proof -
  have n: "\<forall>c\<in>set ''Second or third''. \<not> isdecimal c" by (simp add: char_eval)
  have t: "re_split_W (lower (strip ''Second or third'')) = [''second'', ''or'', ''third'']"
    by (simp add: re_split_W.simps lower_def strip_def char_eval)
  have "parse_spoken_number 4300 ''Second or third'' = scan_tokens (re_split_W (lower (strip ''Second or third'')))"
    using n by (rule parse_no_digits)
  then have 1: "parse_spoken_number 4300 ''Second or third'' = 2"
    by (simp add: t WORD_NUMS_def)
  have 2: "word_run ''Second or '' ''third'' []" by (simp add: word_run_def char_eval)
  have 3: "key_free ''Second or ''"
    by (simp add: key_free_def word_run_def char_eval WORD_NUMS_def)
  have 4: "map_of WORD_NUMS ''third'' = Some 3" by (simp add: WORD_NUMS_def)
  from 1 2 3 4 show ?thesis by blast
qed

section \<open>Properties of the router\<close>

lemma lower_strip: "lower (strip s) = strip (lower s)"
proof -
  have c: "isspace \<circ> lower_char = isspace" by (simp add: fun_eq_iff)
  show ?thesis
    by (simp add: lower_def strip_def rev_map dropWhile_map c)
qed

lemma lower_lower: "lower (lower s) = lower s"
  by (simp add: lower_def)

lemma strip_ends:
  assumes "strip s \<noteq> []"
  shows "\<not> isspace (hd (strip s))" and "\<not> isspace (last (strip s))"
proof -
  let ?r = "dropWhile isspace s"
  let ?t = "dropWhile isspace (rev ?r)"
  have t: "?t \<noteq> []" using assms by (simp add: strip_def)
  have r: "?r \<noteq> []"
  proof
    assume a: "?r = []"
    have "?t = []" unfolding a by simp
    with t show False ..
  qed
  have "\<not> isspace (hd ?t)" using t hd_dropWhile by blast
  then show "\<not> isspace (last (strip s))" using t by (simp add: strip_def last_rev)
  obtain ys where ys: "rev ?r = ys @ ?t"
    by (metis takeWhile_dropWhile_id)
  then have "last ?t = last (rev ?r)" using t by (metis last_appendR)
  then have "last ?t = hd ?r" using r by (simp add: last_rev)
  moreover have "\<not> isspace (hd ?r)" using r hd_dropWhile by blast
  ultimately show "\<not> isspace (hd (strip s))" using t by (simp add: strip_def hd_rev)
qed

lemma strip_strip: "strip (strip s) = strip s"
proof (cases "strip s = []")
  case True
  show ?thesis unfolding True by (simp add: strip_def)
next
  case False
  then show ?thesis by (simp add: strip_id strip_ends)
qed

lemma normal_idem: "strip (lower (strip (lower s))) = strip (lower s)"
  by (simp add: lower_strip [symmetric] lower_lower strip_strip)

lemma pc_norm: "process_command e q = process_command e (strip (lower q))"
  by (simp only: process_command_def normal_idem)

lemma first_match:
  "find (\<lambda>r. matches r (strip (lower q0))) rule_order = Some (fst (process_command e q0))"
  by (simp add: process_command_def rule_order_def Let_def)


lemma speak_no_volume [simp]: "VolumeControl a \<notin> set (speak_and_print e t)"
  by (auto simp: speak_and_print_def split: option.splits)

lemma selection_no_volume [simp]:
  "VolumeControl a \<notin> set (fst (get_user_selection_via_voice_or_input e n))"
  by (auto simp: get_user_selection_via_voice_or_input_def Let_def split: option.splits)

lemma file_search_no_volume [simp]: "VolumeControl a \<notin> set (fst (file_search e q))"
  by (simp add: file_search_def Let_def open_file_def split_beta)

lemma control_volume_events [simp]: "fst (control_volume e a) = [VolumeControl a]"
  by (simp add: control_volume_def)

lemma other_no_volume [simp]:
  "VolumeControl a \<notin> set (fst (set_volume_absolute e p))"
  "VolumeControl a \<notin> set (fst (brightness e st d))"
  "VolumeControl a \<notin> set (fst (fetch_weather_from_google e c))"
  "VolumeControl a \<notin> set (fst (fetch_gemini_response e c))"
  by (auto simp: set_volume_absolute_def brightness_def fetch_weather_from_google_def
      fetch_gemini_response_def Let_def split: option.splits sum.splits)

lemma no_mute_event:
  assumes "\<not> (contains ''mute'' (strip (lower q0)) \<and> \<not> contains ''unmute'' (strip (lower q0)))"
  shows "VolumeControl ''mute'' \<notin> set (fst (snd (process_command e q0)))"
  using assms by (simp add: process_command_def Let_def) blast

lemma unmute_first:
  assumes "contains ''unmute'' (strip (lower q0))"
    and "\<forall>r\<in>set (takeWhile (\<lambda>r. r \<noteq> Mute) rule_order). \<not> matches r (strip (lower q0))"
  shows "process_command e q0 = (Unmute, control_volume e ''unmute'')"
  using assms by (simp add: process_command_def rule_order_def Let_def)

lemma fallback_total:
  assumes "\<forall>r\<in>set rule_order. r \<noteq> Fallback \<longrightarrow> \<not> matches r (strip (lower q0))"
  shows "process_command e q0 = (Fallback, fetch_gemini_response e (strip (lower q0)))"
  using assms by (simp add: process_command_def rule_order_def Let_def) blast

text \<open>
  Claim C1. For every input and every environment, \<open>process_command\<close> answers through
  exactly one rule, the first rule of the table whose condition holds on the normalised
  command; the fallback has no condition, so a rule is always found. A command that meets
  the condition of no earlier rule is answered by \<open>fetch_gemini_response\<close> on the
  normalised command.
\<close>

theorem process_command_total:
  "find (\<lambda>r. matches r (strip (lower q0))) rule_order = Some (fst (process_command e q0))
   \<and> ((\<forall>r\<in>set rule_order. r \<noteq> Fallback \<longrightarrow> \<not> matches r (strip (lower q0)))
        \<longrightarrow> process_command e q0 = (Fallback, fetch_gemini_response e (strip (lower q0))))"
  using first_match fallback_total by blast

lemma n_story: "strip (lower ''Tell me a story'') = ''tell me a story''"
  by (simp add: lower_def strip_def char_eval)

lemmas router_eval = greetings_def smalltalk_def farewells_def file_keywords_def startswith_def
  match_set_volume_def match_volume_def rule_order_def APOS_def

text \<open>Claim C1, witness: \<open>"Tell me a story"\<close> meets no condition and goes to the fallback.\<close>

theorem process_command_total_witness:
  "process_command sample_env ''Tell me a story'' = (Fallback, [GeminiSend ''tell me a story''], [])"
proof -
  have h: "\<forall>r\<in>set rule_order. r \<noteq> Fallback \<longrightarrow> \<not> matches r (strip (lower ''Tell me a story''))"
    by (simp add: n_story router_eval)
  have g: "fetch_gemini_response sample_env ''tell me a story'' = ([GeminiSend ''tell me a story''], [])"
    by (simp add: fetch_gemini_response_def sample_env_def strip_def char_eval)
  from process_command_total [of "''Tell me a story''" sample_env] h
  show ?thesis by (simp add: n_story g)
qed

text \<open>
  Claim C4. A normalised command that contains \<open>unmute\<close> is never answered by the mute
  rule and never calls \<open>control_volume("mute")\<close>; when no rule before the mute rule
  matches, it is answered by \<open>control_volume("unmute")\<close>.
\<close>

theorem unmute_never_mute:
  assumes "contains ''unmute'' (strip (lower q0))"
  shows "fst (process_command e q0) \<noteq> Mute
     \<and> VolumeControl ''mute'' \<notin> set (fst (snd (process_command e q0)))
     \<and> ((\<forall>r\<in>set (takeWhile (\<lambda>r. r \<noteq> Mute) rule_order). \<not> matches r (strip (lower q0)))
          \<longrightarrow> process_command e q0 = (Unmute, control_volume e ''unmute''))"
proof -
  have "find (\<lambda>r. matches r (strip (lower q0))) rule_order = Some (fst (process_command e q0))"
    by (rule first_match)
  then have "matches (fst (process_command e q0)) (strip (lower q0))"
    by (metis find_Some_iff)
  then have a: "fst (process_command e q0) \<noteq> Mute" using assms by auto
  have b: "VolumeControl ''mute'' \<notin> set (fst (snd (process_command e q0)))"
    using assms by (intro no_mute_event) simp
  from a b unmute_first [OF assms] show ?thesis by blast
qed

lemma n_unmute: "strip (lower '' Please UNMUTE '') = ''please unmute''"
  by (simp add: lower_def strip_def char_eval)

text \<open>Claim C4, witness: \<open>" Please UNMUTE "\<close> calls \<open>control_volume("unmute")\<close>.\<close>

theorem unmute_never_mute_witness:
  "process_command sample_env '' Please UNMUTE ''
     = (Unmute, [VolumeControl ''unmute''], ''Volume unmute.'')"
proof -
  have c: "contains ''unmute'' (strip (lower '' Please UNMUTE ''))"
    by (simp add: n_unmute)
  have h: "\<forall>r\<in>set (takeWhile (\<lambda>r. r \<noteq> Mute) rule_order).
             \<not> matches r (strip (lower '' Please UNMUTE ''))"
    by (simp add: n_unmute router_eval boundary_def isword_opt_def nth_opt_def char_eval)
  have v: "control_volume sample_env ''unmute'' = ([VolumeControl ''unmute''], ''Volume unmute.'')"
    by (simp add: control_volume_def sample_env_def)
  from unmute_never_mute [OF c, of sample_env] h show ?thesis by (simp add: v)
qed

text \<open>
  Claim C10. \<open>process_command\<close> gives on \<open>q\<close> what it gives on \<open>q.lower().strip()\<close>:
  the same rule, the same events and the same response; two inputs with the same
  normalised text are answered alike.
\<close>

theorem process_command_normalises:
  "process_command e q = process_command e (strip (lower q))
   \<and> (strip (lower q) = strip (lower q') \<longrightarrow> process_command e q = process_command e q')"
  by (metis pc_norm)

text \<open>Claim C10, witness: three spellings of one command.\<close>

theorem process_command_normalises_witness:
  "process_command sample_env '' Please UNMUTE '' = process_command sample_env ''please unmute''
   \<and> process_command sample_env '' Please UNMUTE '' = process_command sample_env ''PLEASE unmute''"
proof -
  have n: "strip (lower ''PLEASE unmute'') = ''please unmute''"
    by (simp add: lower_def strip_def char_eval)
  show ?thesis
    using process_command_normalises [of sample_env "'' Please UNMUTE ''" "''PLEASE unmute''"]
    unfolding n_unmute n by blast
qed

section \<open>Properties of the file search and of the selection\<close>

lemma pc_file_search:
  "fst (process_command e q0) = FileSearch \<Longrightarrow>
   process_command e q0 = (FileSearch, file_search e (strip (lower q0)))"
  by (simp add: process_command_def Let_def split: if_splits)

lemma speak_filters [simp]:
  "filter is_capture (speak_and_print e t) = []"
  "filter is_input (speak_and_print e t) = []"
  "filter is_open (speak_and_print e t) = []"
  "filter is_search (speak_and_print e t) = []"
  by (auto simp: speak_and_print_def split: option.splits)

lemma selection_filters [simp]:
  "filter is_open (fst (get_user_selection_via_voice_or_input e n)) = []"
  "filter is_search (fst (get_user_selection_via_voice_or_input e n)) = []"
  "filter is_capture (fst (get_user_selection_via_voice_or_input e n)) = [Listen 8 5]"
  "length (filter is_input (fst (get_user_selection_via_voice_or_input e n))) \<le> 1"
  by (auto simp: get_user_selection_via_voice_or_input_def Let_def split: option.splits)

lemma selection_range:
  "snd (get_user_selection_via_voice_or_input e n) = - 1
   \<or> (0 \<le> snd (get_user_selection_via_voice_or_input e n)
      \<and> snd (get_user_selection_via_voice_or_input e n) \<le> n)"
  by (auto simp: get_user_selection_via_voice_or_input_def Let_def split: option.splits)

lemma open_file_events [simp]: "fst (open_file e p) = [OpenFile p]"
  by (simp add: open_file_def)

text \<open>
  Claim C7. When the file-search rule answers and the search term, what is left of the
  normalised command once every keyword is removed and the rest stripped, has fewer than
  two characters, the response is the request for a file name and nothing else happens:
  \<open>search_files\<close> is not called.
\<close>

theorem file_search_short_term:
  assumes "fst (process_command e q0) = FileSearch"
    and "length (search_terms_of (strip (lower q0))) < 2"
  shows "snd (process_command e q0)
           = ([], ''Please specify a file name, keyword, or part of it to search.'')
         \<and> filter is_search (fst (snd (process_command e q0))) = []"
  using assms(2) by (simp add: pc_file_search [OF assms(1)] file_search_def Let_def)

lemma n_find_x: "strip (lower ''Find x'') = ''find x''"
  by (simp add: lower_def strip_def char_eval)

lemmas pc_eval = greetings_def smalltalk_def farewells_def file_keywords_def startswith_def
  match_set_volume_def match_volume_def APOS_def boundary_def isword_opt_def nth_opt_def

text \<open>Claim C7, witness: \<open>"Find x"\<close> leaves the one-character term \<open>x\<close>.\<close>

theorem file_search_short_term_witness:
  "process_command sample_env ''Find x''
     = (FileSearch, [], ''Please specify a file name, keyword, or part of it to search.'')"
proof -
  have r: "fst (process_command sample_env ''Find x'') = FileSearch"
    by (simp add: process_command_def n_find_x pc_eval)
  have "search_terms_of ''find x'' = ''x''"
    by (simp add: search_terms_of_def file_keywords_def strip_def char_eval)
  then have t: "search_terms_of (strip (lower ''Find x'')) = ''x''"
    by (simp only: n_find_x)
  have "length (search_terms_of (strip (lower ''Find x''))) < 2" by (simp add: t)
  from file_search_short_term [OF r this] r show ?thesis
    by (metis prod.collapse)
qed

text \<open>
  Claim C5. When the file-search rule answers with a search term of at least two
  characters: no match gives the message that no file matches the term; exactly one match
  is opened at once; more than one match prints the numbered list and runs
  \<open>get_user_selection_via_voice_or_input\<close> on the number of matches. The turn
  captures a spoken selection if and only if there is more than one match.
\<close>

theorem file_search_dispatch:
  assumes "fst (process_command e q0) = FileSearch"
    and "key = search_terms_of (strip (lower q0))"
    and "2 \<le> length key"
  shows "(search_files e key = [] \<longrightarrow>
            snd (process_command e q0)
              = ([SearchFiles key], ''No files found matching '' @ [APOS] @ key @ [APOS] @ ''.''))
       \<and> (\<forall>p. search_files e key = [p] \<longrightarrow>
            snd (process_command e q0)
              = ([SearchFiles key, OpenFile p], ''Found and '' @ snd (open_file e p)))
       \<and> (1 < length (search_files e key) \<longrightarrow>
            (\<exists>rest. fst (snd (process_command e q0))
               = [SearchFiles key,
                  Print ([NL] @ join [NL] (''Files found:'' # numbered (search_files e key)) @ [NL])]
                 @ fst (get_user_selection_via_voice_or_input e
                         (int (length (search_files e key))))
                 @ rest))
       \<and> (filter is_capture (fst (snd (process_command e q0))) \<noteq> []
            \<longleftrightarrow> 1 < length (search_files e key))"
proof -
  have pc: "process_command e q0 = (FileSearch, file_search e (strip (lower q0)))"
    using assms(1) by (rule pc_file_search)
  have k: "\<not> (key = [] \<or> length key < 2)" using assms(3) by auto
  let ?ms = "search_files e key"
  have a: "?ms = [] \<longrightarrow>
            snd (process_command e q0)
              = ([SearchFiles key], ''No files found matching '' @ [APOS] @ key @ [APOS] @ ''.'')"
    using k by (simp add: pc file_search_def Let_def assms(2) [symmetric])
  have b: "\<forall>p. ?ms = [p] \<longrightarrow>
            snd (process_command e q0)
              = ([SearchFiles key, OpenFile p], ''Found and '' @ snd (open_file e p))"
    using k by (simp add: pc file_search_def Let_def assms(2) [symmetric] split_beta)
  have c: "1 < length ?ms \<longrightarrow>
            (\<exists>rest. fst (snd (process_command e q0))
               = [SearchFiles key,
                  Print ([NL] @ join [NL] (''Files found:'' # numbered ?ms) @ [NL])]
                 @ fst (get_user_selection_via_voice_or_input e (int (length ?ms)))
                 @ rest)"
    using k by (auto simp: pc file_search_def Let_def assms(2) [symmetric] split_beta)
  have d: "filter is_capture (fst (snd (process_command e q0))) \<noteq> [] \<longleftrightarrow> 1 < length ?ms"
  proof (cases "length ?ms \<le> 1")
    case True
    then have "?ms = [] \<or> (\<exists>p. ?ms = [p])"
      by (cases ?ms) (auto simp: le_Suc_eq)
    with a b True show ?thesis by auto
  next
    case False
    then show ?thesis
      using k by (auto simp: pc file_search_def Let_def assms(2) [symmetric] split_beta)
  qed
  from a b c d show ?thesis by blast
qed


lemma n_find_report: "strip (lower ''Find Report '') = ''find report''"
  by (simp add: lower_def strip_def char_eval)

lemma rule_find_report: "fst (process_command sample_env ''Find Report '') = FileSearch"
  by (simp add: process_command_def n_find_report pc_eval)

lemma key_find_report: "search_terms_of (strip (lower ''Find Report '')) = ''report''"
proof -
  have "search_terms_of ''find report'' = ''report''"
    by (simp add: search_terms_of_def file_keywords_def strip_def char_eval)
  then show ?thesis by (simp only: n_find_report)
qed

lemma files_report:
  "search_files sample_env ''report''
     = [''/home/u/report.txt'', ''/home/u/Report_old.txt'', ''/home/u/docs/annual report.pdf'']"
  by (simp add: search_files_def sample_env_def lower_def char_eval)

text \<open>Claim C5, witness: \<open>"Find Report "\<close> has three matches, and a selection is captured.\<close>

theorem file_search_dispatch_witness:
  "filter is_capture (fst (snd (process_command sample_env ''Find Report ''))) \<noteq> []"
proof -
  have k: "''report'' = search_terms_of (strip (lower ''Find Report ''))"
    by (simp only: key_find_report)
  have l: "2 \<le> length ''report''" by simp
  from file_search_dispatch [OF rule_find_report k l] show ?thesis
    by (simp add: files_report)
qed

text \<open>
  Claim C6. The selection is \<open>-1\<close> or lies between 0 and the maximum index. With more
  than one match: the selection 0 gives the cancellation message and opens no file; a
  selection that is neither 0 nor between 1 and the number of matches gives the message of
  the invalid choice and opens no file; a selection between 1 and the number of matches
  opens that match, counted from 1, and no other file. The turn captures one spoken
  selection and asks for a typed one at most once.
\<close>

theorem selection_outcome:
  assumes "fst (process_command e q0) = FileSearch"
    and "key = search_terms_of (strip (lower q0))" and "2 \<le> length key"
    and "ms = search_files e key" and "1 < length ms"
    and "sel = snd (get_user_selection_via_voice_or_input e (int (length ms)))"
    and "evs = fst (snd (process_command e q0))"
    and "response = snd (snd (process_command e q0))"
  shows "(\<forall>n. snd (get_user_selection_via_voice_or_input e n) = - 1
              \<or> (0 \<le> snd (get_user_selection_via_voice_or_input e n)
                 \<and> snd (get_user_selection_via_voice_or_input e n) \<le> n))
       \<and> (sel = 0 \<longrightarrow> response = ''Cancelled. No file opened.'' \<and> filter is_open evs = [])
       \<and> (sel \<noteq> 0 \<and> \<not> (1 \<le> sel \<and> sel \<le> int (length ms)) \<longrightarrow>
            response = ''Invalid choice. No file opened.'' \<and> filter is_open evs = [])
       \<and> (1 \<le> sel \<and> sel \<le> int (length ms) \<longrightarrow>
            response = ''Opened: '' @ ms ! nat (sel - 1)
            \<and> filter is_open evs = [OpenFile (ms ! nat (sel - 1))])
       \<and> filter is_capture evs = [Listen 8 5]
       \<and> length (filter is_input evs) \<le> 1"
proof -
  have pc: "process_command e q0 = (FileSearch, file_search e (strip (lower q0)))"
    using assms(1) by (rule pc_file_search)
  have k: "\<not> (key = [] \<or> length key < 2)" using assms(3) by auto
  have m: "ms \<noteq> []" "length ms \<noteq> 1" using assms(5) by auto
  note fs = pc file_search_def Let_def assms(2) [symmetric] assms(4) [symmetric]
    assms(6) [symmetric] split_beta
  have a: "\<forall>n. snd (get_user_selection_via_voice_or_input e n) = - 1
              \<or> (0 \<le> snd (get_user_selection_via_voice_or_input e n)
                 \<and> snd (get_user_selection_via_voice_or_input e n) \<le> n)"
    using selection_range by blast
  have b: "sel = 0 \<longrightarrow> response = ''Cancelled. No file opened.'' \<and> filter is_open evs = []"
    using k m by (simp add: assms(7,8) fs)
  have c: "sel \<noteq> 0 \<and> \<not> (1 \<le> sel \<and> sel \<le> int (length ms)) \<longrightarrow>
            response = ''Invalid choice. No file opened.'' \<and> filter is_open evs = []"
    using k m by (simp add: assms(7,8) fs)
  have d: "1 \<le> sel \<and> sel \<le> int (length ms) \<longrightarrow>
            response = ''Opened: '' @ ms ! nat (sel - 1)
            \<and> filter is_open evs = [OpenFile (ms ! nat (sel - 1))]"
    using k m by (simp add: assms(7,8) fs)
  have f: "filter is_capture evs = [Listen 8 5]"
    using k m by (simp add: assms(7,8) fs)
  have g: "length (filter is_input evs) \<le> 1"
    using k m selection_filters(4) [of e "int (length ms)"] by (simp add: assms(7,8) fs)
  from a b c d f g show ?thesis by blast
qed

lemma sel_sample: "snd (get_user_selection_via_voice_or_input sample_env 3) = 2"
  by (simp add: get_user_selection_via_voice_or_input_def sample_env_def Let_def py_int_def
      int_space_def literal_digits_def strip_def dec_val_def digit_val_def char_eval)

text \<open>
  Claim C6, witness: three matches, the capture times out, the user types 2, and the second
  match is opened.
\<close>

theorem selection_outcome_witness:
  "snd (snd (process_command sample_env ''Find Report '')) = ''Opened: /home/u/Report_old.txt''
   \<and> filter is_open (fst (snd (process_command sample_env ''Find Report '')))
       = [OpenFile ''/home/u/Report_old.txt'']"
proof -
  let ?ms = "[''/home/u/report.txt'', ''/home/u/Report_old.txt'',
              ''/home/u/docs/annual report.pdf'']"
  have k: "''report'' = search_terms_of (strip (lower ''Find Report ''))"
    by (simp only: key_find_report)
  have l: "2 \<le> length ''report''" by simp
  have m: "?ms = search_files sample_env ''report''" by (simp only: files_report)
  have n: "1 < length ?ms" by simp
  have s: "(2::int) = snd (get_user_selection_via_voice_or_input sample_env (int (length ?ms)))"
    by (simp add: sel_sample)
  from selection_outcome [OF rule_find_report k l m n s refl refl] show ?thesis by simp
qed

section \<open>Properties of the output and of the wake word loop\<close>

text \<open>
  What one turn puts out. \<open>handle_query\<close> runs the command, prints the two console
  lines and calls \<open>speak_and_print\<close> once on the response. For a non-empty response
  \<open>speak_and_print\<close> first prints the table and shows the notification, and only then
  speaks, exactly once: through Deepgram when it is configured and succeeds, through the
  local engine otherwise, also after a Deepgram failure. For an empty response
  \<open>speak_and_print\<close> returns at its first statement, before the table, the notification
  and the speech.
\<close>

lemma handle_query_output:
  assumes "response = snd (snd (process_command e query))"
    and "out = speak_and_print e response"
  shows "handle_query e query
           = fst (snd (process_command e query))
             @ [Print (''User: '' @ query), Print (''Leo: '' @ response)] @ out
       \<and> (response \<noteq> [] \<longrightarrow>
            take 2 out = [Print ([NL] @ ascii_table e response @ [NL]), Toast response]
            \<and> filter is_speech (take 2 out) = []
            \<and> filter is_speech out
                = [if deepgram_configured e \<and> deepgram_error e response = None
                   then DeepgramSpeak response else LocalSpeak response]
            \<and> is_speech (last out))
       \<and> (response = [] \<longrightarrow> out = [])"
proof -
  have a: "handle_query e query
           = fst (snd (process_command e query))
             @ [Print (''User: '' @ query), Print (''Leo: '' @ response)] @ out"
    by (simp add: handle_query_def split_beta assms)
  have b: "take 2 out = [Print ([NL] @ ascii_table e response @ [NL]), Toast response]
            \<and> filter is_speech (take 2 out) = []
            \<and> filter is_speech out
                = [if deepgram_configured e \<and> deepgram_error e response = None
                   then DeepgramSpeak response else LocalSpeak response]
            \<and> is_speech (last out)"
    if "response \<noteq> []"
    using that by (auto simp: assms(2) speak_and_print_def split: option.splits)
  have c: "response = [] \<longrightarrow> out = []"
    by (simp add: assms(2) speak_and_print_def)
  from a b c show ?thesis by blast
qed

lemma hello_response:
  "process_command sample_env ''hello'' = (Greeting, [], ''Hello! How can I assist you?'')"
proof -
  have "strip (lower ''hello'') = ''hello''" by (simp add: lower_def strip_def char_eval)
  then show ?thesis by (simp add: process_command_def greetings_def)
qed

text \<open>The greeting is spoken once, by the local engine.\<close>

lemma handle_query_output_hello:
  "filter is_speech (speak_and_print sample_env ''Hello! How can I assist you?'')
     = [LocalSpeak ''Hello! How can I assist you?'']
   \<and> filter is_speech (handle_query sample_env ''hello'')
       = [LocalSpeak ''Hello! How can I assist you?'']"
proof -
  have r: "''Hello! How can I assist you?'' = snd (snd (process_command sample_env ''hello''))"
    by (simp add: hello_response)
  have d: "\<not> deepgram_configured sample_env" by (simp add: sample_env_def)
  from handle_query_output [OF r refl] d show ?thesis
    by (simp add: hello_response)
qed

text \<open>
  Claim C8 asks that every completed turn emits its Response through the display and
  through the speaker, also when the Response text is empty; the docstring of
  \<open>speak_and_print\<close> promises the same (both console text and voice, always). The code
  does not do it at an empty Response. \<open>fetch_gemini_response\<close> replaces an empty reply
  by \<open>"(no response)"\<close> but strips the text only after that, so a reply of blanks
  only becomes the empty Response; \<open>speak_and_print\<close> then returns at once, and the
  completed turn shows no table, no notification and speaks nothing: only the two console
  lines are printed.
\<close>

theorem empty_response_not_emitted:
  "handle_query sample_env ''Tell me a story''
     = [GeminiSend ''tell me a story'', Print ''User: Tell me a story'', Print ''Leo: '']"
proof -
  have n: "strip (lower ''Tell me a story'') = ''tell me a story''"
    by (simp add: lower_def strip_def char_eval)
  have h: "\<forall>r\<in>set rule_order. r \<noteq> Fallback \<longrightarrow> \<not> matches r (strip (lower ''Tell me a story''))"
    by (simp add: n router_eval)
  have g: "fetch_gemini_response sample_env ''tell me a story'' = ([GeminiSend ''tell me a story''], [])"
    by (simp add: fetch_gemini_response_def sample_env_def strip_def char_eval)
  have "process_command sample_env ''Tell me a story''
          = (Fallback, fetch_gemini_response sample_env (strip (lower ''Tell me a story'')))"
    using h by (rule fallback_total)
  then have "process_command sample_env ''Tell me a story''
          = (Fallback, [GeminiSend ''tell me a story''], [])"
    by (simp only: n g)
  then show ?thesis by (simp add: handle_query_def speak_and_print_def)
qed

lemma contains_length: "contains sep t \<Longrightarrow> length sep \<le> length t"
proof (induction t)
  case Nil
  then show ?case by simp
next
  case (Cons c cs)
  show ?case
  proof (cases "prefix sep (c # cs)")
    case True
    then show ?thesis by (rule prefix_length_le)
  next
    case False
    with Cons have "length sep \<le> length cs" by simp
    then show ?thesis by simp
  qed
qed

lemma contains_append: "contains sep (pre @ sep @ post)"
proof (induction pre)
  case Nil
  show ?case
  proof (cases "sep @ post")
    case Nil
    then show ?thesis by simp
  next
    case (Cons a list)
    have "prefix sep (a # list)" unfolding Cons [symmetric] by simp
    then have "contains sep (a # list)" by simp
    then show ?thesis by (simp add: Cons)
  qed
next
  case (Cons a pre)
  then show ?case by simp
qed

lemma split1_first:
  assumes "sep \<noteq> []" and "\<not> contains sep (pre @ butlast sep)"
  shows "split1 sep (pre @ sep @ post) = Some (pre, post)"
  using assms(2)
proof (induction pre)
  case Nil
  obtain c cs where s: "sep @ post = c # cs" using assms(1) by (cases "sep @ post") auto
  have p: "prefix sep (c # cs)" unfolding s [symmetric] by simp
  have d: "drop (length sep) (c # cs) = post" unfolding s [symmetric] by simp
  have "split1 sep (c # cs) = Some ([], post)" using p d by simp
  then show ?case by (simp add: s)
next
  case (Cons a pre)
  from Cons.prems have np: "\<not> prefix sep (a # pre @ butlast sep)"
    and nc: "\<not> contains sep (pre @ butlast sep)" by simp_all
  have "\<not> prefix sep (a # pre @ sep @ post)"
  proof
    assume p: "prefix sep (a # pre @ sep @ post)"
    have "sep = butlast sep @ [last sep]" using assms(1) by simp
    then have "a # pre @ sep @ post = (a # pre @ butlast sep) @ ([last sep] @ post)"
      by (metis append.assoc append_Cons)
    then have q: "prefix (a # pre @ butlast sep) (a # pre @ sep @ post)"
      by (metis prefixI)
    have "length sep \<le> length (a # pre @ butlast sep)" using assms(1) by (simp add: Suc_leI)
    with p q have "prefix sep (a # pre @ butlast sep)" by (rule prefix_length_prefix)
    with np show False ..
  qed
  moreover have "split1 sep (pre @ sep @ post) = Some (pre, post)" using nc by (rule Cons.IH)
  ultimately show ?case by simp
qed

lemma first_occurrence:
  assumes "sep \<noteq> []" and "contains sep s"
  shows "\<exists>pre post. s = pre @ sep @ post \<and> \<not> contains sep (pre @ butlast sep)"
  using assms(2)
proof (induction s)
  case Nil
  with assms(1) show ?case by simp
next
  case (Cons c cs)
  show ?case
  proof (cases "prefix sep (c # cs)")
    case True
    then obtain post where "c # cs = [] @ sep @ post" by (auto simp: prefix_def)
    moreover have "\<not> contains sep ([] @ butlast sep)"
    proof
      assume c: "contains sep ([] @ butlast sep)"
      have "length sep \<le> length ([] @ butlast sep)" using c by (rule contains_length)
      also have "\<dots> = length sep - 1" by simp
      finally have "length sep \<le> length sep - 1" .
      moreover have "0 < length sep" using assms(1) by (cases sep) simp_all
      ultimately show False by arith
    qed
    ultimately show ?thesis by blast
  next
    case False
    with Cons.prems have "contains sep cs" by simp
    then obtain pre post where pp: "cs = pre @ sep @ post"
      and nc: "\<not> contains sep (pre @ butlast sep)" using Cons.IH by blast
    have "\<not> prefix sep (c # pre @ butlast sep)"
    proof
      assume p: "prefix sep (c # pre @ butlast sep)"
      have "sep = butlast sep @ [last sep]" using assms(1) by simp
      then have "c # cs = (c # pre @ butlast sep) @ ([last sep] @ post)"
        using pp by (metis append.assoc append_Cons)
      then have "prefix (c # pre @ butlast sep) (c # cs)" by (metis prefixI)
      with p have "prefix sep (c # cs)" by (rule prefix_order.trans)
      with False show False ..
    qed
    with nc have "\<not> contains sep ((c # pre) @ butlast sep)" by simp
    moreover have "c # cs = (c # pre) @ sep @ post" using pp by simp
    ultimately show ?thesis by blast
  qed
qed

text \<open>
  Claim C9. In one iteration of the wake word loop, for a non-empty normalised
  transcription: when it contains the wake word there is a first occurrence; the query is
  the text after the first occurrence, stripped, and a non-empty query is handed to
  \<open>handle_query\<close> as it is; a transcription without the wake word is dropped and nothing
  happens.
\<close>

theorem wake_word_query:
  assumes "said = strip (lower raw)" and "said \<noteq> []"
  shows "(contains WAKE_WORD said \<longrightarrow>
            (\<exists>pre post. said = pre @ WAKE_WORD @ post
               \<and> \<not> contains WAKE_WORD (pre @ butlast WAKE_WORD)))
       \<and> (\<forall>pre post. said = pre @ WAKE_WORD @ post
               \<and> \<not> contains WAKE_WORD (pre @ butlast WAKE_WORD) \<longrightarrow>
             query_after_wake said = Some (strip post)
             \<and> (strip post \<noteq> [] \<longrightarrow>
                  listen_iteration e (Heard raw) followup = handle_query e (strip post)))
       \<and> (\<not> contains WAKE_WORD said \<longrightarrow> listen_iteration e (Heard raw) followup = [])"
proof -
  have w: "WAKE_WORD \<noteq> []" by (simp add: WAKE_WORD_def)
  have a: "contains WAKE_WORD said \<longrightarrow>
            (\<exists>pre post. said = pre @ WAKE_WORD @ post
               \<and> \<not> contains WAKE_WORD (pre @ butlast WAKE_WORD))"
    using first_occurrence [OF w] by blast
  have b: "query_after_wake said = Some (strip post)
           \<and> (strip post \<noteq> [] \<longrightarrow>
                listen_iteration e (Heard raw) followup = handle_query e (strip post))"
    if d: "said = pre @ WAKE_WORD @ post" and f: "\<not> contains WAKE_WORD (pre @ butlast WAKE_WORD)"
    for pre post
  proof -
    have s: "split1 WAKE_WORD said = Some (pre, post)"
      unfolding d using w f by (rule split1_first)
    then have q: "query_after_wake said = Some (strip post)"
      by (simp add: query_after_wake_def)
    have c: "contains WAKE_WORD said" unfolding d by (rule contains_append)
    have "listen_iteration e (Heard raw) followup = handle_query e (strip post)"
      if "strip post \<noteq> []"
      using that assms(2) c q
      by (simp add: listen_iteration_def Let_def assms(1) [symmetric] dispatch_def)
    with q show ?thesis by blast
  qed
  have c: "\<not> contains WAKE_WORD said \<longrightarrow> listen_iteration e (Heard raw) followup = []"
    using assms(2) by (simp add: listen_iteration_def Let_def assms(1) [symmetric])
  from a b c show ?thesis by blast
qed

lemma n_hey: "strip (lower ''Hey Leo open Google '') = ''hey leo open google''"
  by (simp add: lower_def strip_def char_eval)

text \<open>
  Claim C9, witness: \<open>"Hey Leo open Google "\<close> hands on \<open>"open google"\<close>, and
  \<open>"Hello there"\<close> is dropped.
\<close>

theorem wake_word_query_witness:
  "listen_iteration sample_env (Heard ''Hey Leo open Google '') UnknownValue
     = handle_query sample_env ''open google''
   \<and> listen_iteration sample_env (Heard ''Hello there'') UnknownValue = []"
proof -
  have s1: "''hey leo open google'' = strip (lower ''Hey Leo open Google '')"
    by (simp only: n_hey)
  have d: "''hey leo open google'' = ''hey '' @ WAKE_WORD @ '' open google''
           \<and> \<not> contains WAKE_WORD (''hey '' @ butlast WAKE_WORD)"
    by (simp add: WAKE_WORD_def)
  have p: "strip '' open google'' = ''open google''" by (simp add: strip_def char_eval)
  have 1: "listen_iteration sample_env (Heard ''Hey Leo open Google '') UnknownValue
             = handle_query sample_env ''open google''"
    using wake_word_query [OF s1, of sample_env UnknownValue] d p by fastforce
  have s2: "''hello there'' = strip (lower ''Hello there'')"
    by (simp add: lower_def strip_def char_eval)
  have n: "\<not> contains WAKE_WORD ''hello there''" by (simp add: WAKE_WORD_def)
  have 2: "listen_iteration sample_env (Heard ''Hello there'') UnknownValue = []"
    using wake_word_query [OF s2, of sample_env UnknownValue] n by simp
  from 1 2 show ?thesis by simp
qed

end
